theory Spec2Isabelle
  imports Main "HOL-Library.Word" "HOL-Library.AList"
begin

unbundle bit_operations_syntax

section \<open>The host: strings, errors, DOM trees\<close>

text \<open>
  \<open>src/externs.js\<close> is the JavaScript glue that brunhild merges into the Emscripten
  library: nine DOM mutation primitives, \<open>get_inner_html\<close>, and the two functions of the
  event delegation registry. Every function calls into the browser (the DOM, the event
  listener list of \<open>document\<close>, \<open>JSON.stringify\<close>) and into the Emscripten runtime
  (\<open>Pointer_stringify\<close>, \<open>Module._malloc\<close>, \<open>stringToUTF8\<close>, \<open>Module.cwrap\<close>).
  The functions of \<open>externs.js\<close> are embedded one to one; the host is modelled as far as
  their control and data flow depends on it.

  A JavaScript string is a sequence of UTF-16 code units. \<open>js\<close> writes an ASCII literal.
  The C string arguments of the primitives are modelled by the JavaScript string that
  \<open>Pointer_stringify\<close> reads from them.
\<close>

type_synonym jsstring = "16 word list"

definition js :: "string \<Rightarrow> jsstring" where
  "js cs = map (\<lambda>c. of_nat (of_char c)) cs"

text \<open>The exceptions that the calls made by \<open>externs.js\<close> can raise.\<close>

datatype js_error =
    TypeError
  | SyntaxError
  | HierarchyRequestError
  | NoModificationAllowedError
  | InvalidCharacterError

text \<open>
  A DOM node: an element with its tag, its attribute list (in document order) and its
  children, a text node or a comment. A document is the list of children of the
  \<open>Document\<close> node. An element of the document is addressed by its path: the child
  indices from the document node down to it.
\<close>

datatype node =
    Element jsstring "(jsstring \<times> jsstring) list" "node list"
  | Text jsstring
  | Comment jsstring

type_synonym document = "node list"
type_synonym path = "nat list"

text \<open>
  What the browser computes and \<open>externs.js\<close> only calls: the HTML fragment parser behind
  the \<open>innerHTML\<close> and \<open>outerHTML\<close> setters (context element's tag, markup), the
  serialiser behind the \<open>innerHTML\<close> getter, \<open>JSON.stringify\<close> on an object whose
  properties are strings, and the validation and normalisation of an attribute name by
  \<open>setAttribute\<close> and \<open>removeAttribute\<close>.
\<close>

record host =
  parse_html :: "jsstring \<Rightarrow> jsstring \<Rightarrow> node list"
  inner_html_of :: "node \<Rightarrow> jsstring"
  json_stringify :: "(jsstring \<times> jsstring) list \<Rightarrow> jsstring"
  attr_name_valid :: "jsstring \<Rightarrow> bool"
  attr_name_norm :: "jsstring \<Rightarrow> jsstring"

subsection \<open>\<open>document.getElementById\<close>\<close>

text \<open>
  An element has an ID when it has an \<open>id\<close> attribute whose value is not the empty
  string. \<open>getElementById\<close> returns the first element in tree order with the given ID, or
  \<open>null\<close> (here \<open>None\<close>).
\<close>

definition has_id :: "(jsstring \<times> jsstring) list \<Rightarrow> jsstring \<Rightarrow> bool" where
  "has_id attrs i \<longleftrightarrow> i \<noteq> [] \<and> map_of attrs (js ''id'') = Some i"

fun find_in_node :: "jsstring \<Rightarrow> node \<Rightarrow> path option"
  and find_in_nodes :: "jsstring \<Rightarrow> nat \<Rightarrow> node list \<Rightarrow> path option" where
  "find_in_node i (Element t a ch) = (if has_id a i then Some [] else find_in_nodes i 0 ch)"
| "find_in_node i (Text s) = None"
| "find_in_node i (Comment s) = None"
| "find_in_nodes i k [] = None"
| "find_in_nodes i k (n # ns) =
     (case find_in_node i n of
        Some p \<Rightarrow> Some (k # p)
      | None \<Rightarrow> find_in_nodes i (Suc k) ns)"

definition get_element_by_id :: "document \<Rightarrow> jsstring \<Rightarrow> path option" where
  "get_element_by_id doc i = find_in_nodes i 0 doc"

subsection \<open>Reading and replacing the node at a path\<close>

fun node_at :: "path \<Rightarrow> node list \<Rightarrow> node option" where
  "node_at [] ns = None"
| "node_at [i] ns = (if i < length ns then Some (ns ! i) else None)"
| "node_at (i # j # p) ns =
     (if i < length ns
      then (case ns ! i of Element t a ch \<Rightarrow> node_at (j # p) ch | _ \<Rightarrow> None)
      else None)"

text \<open>\<open>update_at p f ns\<close> puts the nodes \<open>f n\<close> in the place of the node \<open>n\<close> at path \<open>p\<close>.\<close>

fun update_at :: "path \<Rightarrow> (node \<Rightarrow> node list) \<Rightarrow> node list \<Rightarrow> node list" where
  "update_at [] f ns = ns"
| "update_at [i] f ns =
     (if i < length ns then take i ns @ f (ns ! i) @ drop (Suc i) ns else ns)"
| "update_at (i # j # p) f ns =
     (if i < length ns
      then (case ns ! i of
              Element t a ch \<Rightarrow> ns[i := Element t a (update_at (j # p) f ch)]
            | _ \<Rightarrow> ns)
      else ns)"

text \<open>The tag of \<open>el.parentNode\<close>; \<open>None\<close> when the parent is the document node.\<close>

definition parent_tag :: "path \<Rightarrow> document \<Rightarrow> jsstring option" where
  "parent_tag p doc =
     (case node_at (butlast p) doc of Some (Element t a ch) \<Rightarrow> Some t | _ \<Rightarrow> None)"

text \<open>
  The children of the node at a path, where the empty path is the document node; the
  children of \<open>el.parentNode\<close> are the element and its siblings.
\<close>

definition children_at :: "path \<Rightarrow> document \<Rightarrow> node list option" where
  "children_at q doc =
     (if q = [] then Some doc
      else (case node_at q doc of Some (Element t a ch) \<Rightarrow> Some ch | _ \<Rightarrow> None))"

definition siblings :: "path \<Rightarrow> document \<Rightarrow> node list option" where
  "siblings p doc = children_at (butlast p) doc"

text \<open>The node at a path below a node; the empty path is the node itself.\<close>

fun node_below :: "path \<Rightarrow> node \<Rightarrow> node option" where
  "node_below [] n = Some n"
| "node_below (i # p) (Element t a ch) = node_at (i # p) ch"
| "node_below (i # p) n = None"

subsection \<open>The DOM calls made by the primitives\<close>

text \<open>
  The \<open>outerHTML\<close> setter: a child of the document node cannot be replaced; otherwise the
  markup is parsed in the context of the parent and the fragment replaces the element.
\<close>

definition set_outerHTML :: "host \<Rightarrow> path \<Rightarrow> jsstring \<Rightarrow> document \<Rightarrow> js_error + document" where
  "set_outerHTML h p html doc =
     (case parent_tag p doc of
        None \<Rightarrow> Inl NoModificationAllowedError
      | Some t \<Rightarrow> Inr (update_at p (\<lambda>n. parse_html h t html) doc))"

text \<open>The \<open>innerHTML\<close> setter: the parsed fragment replaces all children.\<close>

fun replace_children :: "host \<Rightarrow> jsstring \<Rightarrow> node \<Rightarrow> node list" where
  "replace_children h html (Element t a ch) = [Element t a (parse_html h t html)]"
| "replace_children h html n = [n]"

definition set_innerHTML :: "host \<Rightarrow> path \<Rightarrow> jsstring \<Rightarrow> document \<Rightarrow> document" where
  "set_innerHTML h p html doc = update_at p (replace_children h html) doc"

text \<open>
  \<open>var cont = document.createElement('div'); cont.innerHTML = html; cont.firstChild\<close>:
  the first node of the fragment parsed in a \<open>div\<close>, \<open>null\<close> when the fragment is empty.
\<close>

definition first_child :: "host \<Rightarrow> jsstring \<Rightarrow> node option" where
  "first_child h html =
     (case parse_html h (js ''div'') html of [] \<Rightarrow> None | n # rest \<Rightarrow> Some n)"

text \<open>\<open>el.appendChild(n)\<close> and \<open>el.insertBefore(n, el.firstChild)\<close> on an element.\<close>

fun append_child :: "node \<Rightarrow> node \<Rightarrow> node list" where
  "append_child n (Element t a ch) = [Element t a (ch @ [n])]"
| "append_child n m = [m]"

fun prepend_child :: "node \<Rightarrow> node \<Rightarrow> node list" where
  "prepend_child n (Element t a ch) = [Element t a (n # ch)]"
| "prepend_child n m = [m]"

text \<open>
  \<open>el.parentNode.insertBefore(n, ref)\<close>: when the parent is the document node, which
  already has the element child \<open>el\<close>, only a comment may be inserted.
\<close>

fun insertable_in_document :: "node \<Rightarrow> bool" where
  "insertable_in_document (Comment s) = True"
| "insertable_in_document n = False"

definition insert_beside ::
  "bool \<Rightarrow> path \<Rightarrow> node \<Rightarrow> document \<Rightarrow> js_error + document" where
  "insert_beside is_after p n doc =
     (if parent_tag p doc = None \<and> \<not> insertable_in_document n
      then Inl HierarchyRequestError
      else Inr (update_at p (\<lambda>el. if is_after then [el, n] else [n, el]) doc))"

text \<open>\<open>el.setAttribute(key, val)\<close> and \<open>el.removeAttribute(key)\<close>.\<close>

fun with_attr :: "jsstring \<Rightarrow> jsstring \<Rightarrow> node \<Rightarrow> node list" where
  "with_attr k v (Element t a ch) = [Element t (AList.update k v a) ch]"
| "with_attr k v n = [n]"

fun without_attr :: "jsstring \<Rightarrow> node \<Rightarrow> node list" where
  "without_attr k (Element t a ch) = [Element t (AList.delete k a) ch]"
| "without_attr k n = [n]"

definition setAttribute ::
  "host \<Rightarrow> path \<Rightarrow> jsstring \<Rightarrow> jsstring \<Rightarrow> document \<Rightarrow> js_error + document" where
  "setAttribute h p k v doc =
     (if attr_name_valid h k
      then Inr (update_at p (with_attr (attr_name_norm h k) v) doc)
      else Inl InvalidCharacterError)"

definition removeAttribute :: "host \<Rightarrow> path \<Rightarrow> jsstring \<Rightarrow> document \<Rightarrow> document" where
  "removeAttribute h p k doc = update_at p (without_attr (attr_name_norm h k)) doc"

section \<open>The DOM mutation primitives of \<open>externs.js\<close>\<close>

text \<open>
  Each primitive looks its target up by ID. The result is \<open>Inr\<close> the document after the
  call, or \<open>Inl\<close> the exception that the call raises. The primitives \<open>append\<close> and
  \<open>remove\<close> are named \<open>append_js\<close> and \<open>remove_js\<close> here.
\<close>

definition set_outer_html :: "host \<Rightarrow> document \<Rightarrow> jsstring \<Rightarrow> jsstring \<Rightarrow> js_error + document" where
  "set_outer_html h doc i html =
     (case get_element_by_id doc i of
        Some el \<Rightarrow> set_outerHTML h el html doc
      | None \<Rightarrow> Inr doc)"

definition set_inner_html :: "host \<Rightarrow> document \<Rightarrow> jsstring \<Rightarrow> jsstring \<Rightarrow> js_error + document" where
  "set_inner_html h doc i html =
     (case get_element_by_id doc i of
        Some el \<Rightarrow> Inr (set_innerHTML h el html doc)
      | None \<Rightarrow> Inr doc)"

definition append_js :: "host \<Rightarrow> document \<Rightarrow> jsstring \<Rightarrow> jsstring \<Rightarrow> js_error + document" where
  "append_js h doc i html =
     (case get_element_by_id doc i of
        None \<Rightarrow> Inr doc
      | Some el \<Rightarrow>
          (case first_child h html of
             None \<Rightarrow> Inl TypeError
           | Some n \<Rightarrow> Inr (update_at el (append_child n) doc)))"

definition prepend :: "host \<Rightarrow> document \<Rightarrow> jsstring \<Rightarrow> jsstring \<Rightarrow> js_error + document" where
  "prepend h doc i html =
     (case get_element_by_id doc i of
        None \<Rightarrow> Inr doc
      | Some el \<Rightarrow>
          (case first_child h html of
             None \<Rightarrow> Inl TypeError
           | Some n \<Rightarrow> Inr (update_at el (prepend_child n) doc)))"

definition before :: "host \<Rightarrow> document \<Rightarrow> jsstring \<Rightarrow> jsstring \<Rightarrow> js_error + document" where
  "before h doc i html =
     (case get_element_by_id doc i of
        None \<Rightarrow> Inr doc
      | Some el \<Rightarrow>
          (case first_child h html of
             None \<Rightarrow> Inl TypeError
           | Some n \<Rightarrow> insert_beside False el n doc))"

definition after :: "host \<Rightarrow> document \<Rightarrow> jsstring \<Rightarrow> jsstring \<Rightarrow> js_error + document" where
  "after h doc i html =
     (case get_element_by_id doc i of
        None \<Rightarrow> Inr doc
      | Some el \<Rightarrow>
          (case first_child h html of
             None \<Rightarrow> Inl TypeError
           | Some n \<Rightarrow> insert_beside True el n doc))"

text \<open>
  \<open>remove\<close> tests \<open>if (!el)\<close> and calls \<open>el.remove()\<close> in that branch: with a live
  element the branch is not taken, with \<open>null\<close> the call is a property access on
  \<open>null\<close>.
\<close>

definition remove_js :: "document \<Rightarrow> jsstring \<Rightarrow> js_error + document" where
  "remove_js doc i =
     (case get_element_by_id doc i of
        None \<Rightarrow> Inl TypeError
      | Some el \<Rightarrow> Inr doc)"

definition set_attr ::
  "host \<Rightarrow> document \<Rightarrow> jsstring \<Rightarrow> jsstring \<Rightarrow> jsstring \<Rightarrow> js_error + document" where
  "set_attr h doc i key val =
     (case get_element_by_id doc i of
        None \<Rightarrow> Inr doc
      | Some el \<Rightarrow> setAttribute h el key val doc)"

definition remove_attr :: "host \<Rightarrow> document \<Rightarrow> jsstring \<Rightarrow> jsstring \<Rightarrow> js_error + document" where
  "remove_attr h doc i key =
     (case get_element_by_id doc i of
        None \<Rightarrow> Inr doc
      | Some el \<Rightarrow> Inr (removeAttribute h el key doc))"

subsection \<open>The variant without the null checks\<close>

text \<open>
  The file holds three definitions of the library. The first has all twelve functions
  and is the one embedded above and below. The second (the six primitives
  \<open>set_outer_html\<close> to \<open>after\<close>, and \<open>get_inner_html\<close> as in the first) uses the result of
  \<open>getElementById\<close> without testing it. The third repeats the first without \<open>remove\<close>
  and the registry.
\<close>

definition set_outer_html_unguarded ::
  "host \<Rightarrow> document \<Rightarrow> jsstring \<Rightarrow> jsstring \<Rightarrow> js_error + document" where
  "set_outer_html_unguarded h doc i html =
     (case get_element_by_id doc i of
        None \<Rightarrow> Inl TypeError
      | Some el \<Rightarrow> set_outerHTML h el html doc)"

definition set_inner_html_unguarded ::
  "host \<Rightarrow> document \<Rightarrow> jsstring \<Rightarrow> jsstring \<Rightarrow> js_error + document" where
  "set_inner_html_unguarded h doc i html =
     (case get_element_by_id doc i of
        None \<Rightarrow> Inl TypeError
      | Some el \<Rightarrow> Inr (set_innerHTML h el html doc))"

definition append_unguarded ::
  "host \<Rightarrow> document \<Rightarrow> jsstring \<Rightarrow> jsstring \<Rightarrow> js_error + document" where
  "append_unguarded h doc i html =
     (let cont_first = first_child h html
      in case get_element_by_id doc i of
           None \<Rightarrow> Inl TypeError
         | Some el \<Rightarrow>
             (case cont_first of
                None \<Rightarrow> Inl TypeError
              | Some n \<Rightarrow> Inr (update_at el (append_child n) doc)))"

definition prepend_unguarded ::
  "host \<Rightarrow> document \<Rightarrow> jsstring \<Rightarrow> jsstring \<Rightarrow> js_error + document" where
  "prepend_unguarded h doc i html =
     (let cont_first = first_child h html
      in case get_element_by_id doc i of
           None \<Rightarrow> Inl TypeError
         | Some el \<Rightarrow>
             (case cont_first of
                None \<Rightarrow> Inl TypeError
              | Some n \<Rightarrow> Inr (update_at el (prepend_child n) doc)))"

definition before_unguarded ::
  "host \<Rightarrow> document \<Rightarrow> jsstring \<Rightarrow> jsstring \<Rightarrow> js_error + document" where
  "before_unguarded h doc i html =
     (let cont_first = first_child h html
      in case get_element_by_id doc i of
           None \<Rightarrow> Inl TypeError
         | Some el \<Rightarrow>
             (case cont_first of
                None \<Rightarrow> Inl TypeError
              | Some n \<Rightarrow> insert_beside False el n doc))"

definition after_unguarded ::
  "host \<Rightarrow> document \<Rightarrow> jsstring \<Rightarrow> jsstring \<Rightarrow> js_error + document" where
  "after_unguarded h doc i html =
     (let cont_first = first_child h html
      in case get_element_by_id doc i of
           None \<Rightarrow> Inl TypeError
         | Some el \<Rightarrow>
             (case cont_first of
                None \<Rightarrow> Inl TypeError
              | Some n \<Rightarrow> insert_beside True el n doc))"

section \<open>\<open>get_inner_html\<close>\<close>

subsection \<open>The Emscripten heap\<close>

text \<open>
  The heap is the byte array \<open>HEAPU8\<close> together with the blocks (base address, size) that
  \<open>malloc\<close> has handed out and that have not been freed. \<open>Module._malloc\<close> is modelled
  as an allocator that places the new block above every live block and never at address
  0; the bytes of a new block keep whatever the memory held.
\<close>

type_synonym byte = "8 word"

record heap =
  mem :: "nat \<Rightarrow> byte"
  blocks :: "(nat \<times> nat) list"

definition heap_top :: "(nat \<times> nat) list \<Rightarrow> nat" where
  "heap_top bs = fold (\<lambda>(base, n) m. max (base + n) m) bs 0"

definition malloc :: "nat \<Rightarrow> heap \<Rightarrow> nat \<times> heap" where
  "malloc n hp =
     (let base = Suc (heap_top (blocks hp))
      in (base, hp\<lparr>blocks := blocks hp @ [(base, n)]\<rparr>))"

definition write_bytes :: "nat \<Rightarrow> byte list \<Rightarrow> (nat \<Rightarrow> byte) \<Rightarrow> (nat \<Rightarrow> byte)" where
  "write_bytes p bs m = (\<lambda>a. if p \<le> a \<and> a < p + length bs then bs ! (a - p) else m a)"

definition read_bytes :: "(nat \<Rightarrow> byte) \<Rightarrow> nat \<Rightarrow> nat \<Rightarrow> byte list" where
  "read_bytes m p n = map m [p ..< p + n]"

text \<open>The C string held by a buffer: its bytes before the first NUL.\<close>

definition c_string :: "byte list \<Rightarrow> byte list" where
  "c_string bs = takeWhile (\<lambda>b. b \<noteq> 0) bs"

subsection \<open>\<open>stringToUTF8\<close>\<close>

text \<open>
  The runtime's \<open>stringToUTF8(str, outPtr, maxBytesToWrite)\<close> walks the code units of
  \<open>str\<close>, joins a surrogate with the unit after it, and writes the UTF-8 bytes of each
  code point as long as they fit in \<open>maxBytesToWrite - 1\<close> bytes; at the first code point
  that does not fit it stops. It then writes the terminating NUL. With
  \<open>maxBytesToWrite = 0\<close> it writes nothing.
\<close>

definition join_surrogate :: "16 word \<Rightarrow> 16 word \<Rightarrow> nat" where
  "join_surrogate u u1 = (0x10000 + push_bit 10 (unat u AND 0x3FF)) OR (unat u1 AND 0x3FF)"

definition is_surrogate :: "16 word \<Rightarrow> bool" where
  "is_surrogate u \<longleftrightarrow> 0xD800 \<le> u \<and> u \<le> 0xDFFF"

fun code_points :: "jsstring \<Rightarrow> nat list" where
  "code_points [] = []"
| "code_points [u] = (if is_surrogate u then [join_surrogate u 0] else [unat u])"
| "code_points (u # u1 # us) =
     (if is_surrogate u then join_surrogate u u1 # code_points us
      else unat u # code_points (u1 # us))"

definition utf8_bytes :: "nat \<Rightarrow> byte list" where
  "utf8_bytes u =
     (if u \<le> 0x7F then [of_nat u]
      else if u \<le> 0x7FF then
        [of_nat (0xC0 OR drop_bit 6 u), of_nat (0x80 OR (u AND 63))]
      else if u \<le> 0xFFFF then
        [of_nat (0xE0 OR drop_bit 12 u), of_nat (0x80 OR (drop_bit 6 u AND 63)),
         of_nat (0x80 OR (u AND 63))]
      else
        [of_nat (0xF0 OR drop_bit 18 u), of_nat (0x80 OR (drop_bit 12 u AND 63)),
         of_nat (0x80 OR (drop_bit 6 u AND 63)), of_nat (0x80 OR (u AND 63))])"

text \<open>The complete UTF-8 encoding of a string, without terminator.\<close>

definition utf8_encode :: "jsstring \<Rightarrow> byte list" where
  "utf8_encode s = concat (map utf8_bytes (code_points s))"

fun write_fitting :: "nat list \<Rightarrow> nat \<Rightarrow> byte list" where
  "write_fitting [] room = []"
| "write_fitting (u # us) room =
     (if length (utf8_bytes u) \<le> room
      then utf8_bytes u @ write_fitting us (room - length (utf8_bytes u))
      else [])"

definition stringToUTF8 :: "jsstring \<Rightarrow> nat \<Rightarrow> nat \<Rightarrow> heap \<Rightarrow> heap" where
  "stringToUTF8 str outPtr maxBytesToWrite hp =
     (if maxBytesToWrite = 0 then hp
      else hp\<lparr>mem := write_bytes outPtr
                 (write_fitting (code_points str) (maxBytesToWrite - 1) @ [0]) (mem hp)\<rparr>)"

subsection \<open>The function\<close>

definition element_by_id :: "document \<Rightarrow> jsstring \<Rightarrow> node option" where
  "element_by_id doc i =
     (case get_element_by_id doc i of Some p \<Rightarrow> node_at p doc | None \<Rightarrow> None)"

text \<open>The result is the returned pointer and the heap after the call.\<close>

definition get_inner_html :: "host \<Rightarrow> document \<Rightarrow> heap \<Rightarrow> jsstring \<Rightarrow> nat \<times> heap" where
  "get_inner_html h doc hp i =
     (let s = (case element_by_id doc i of Some el \<Rightarrow> inner_html_of h el | None \<Rightarrow> []);
          len = length s + 1;
          (buf, hp1) = malloc len hp
      in (buf, stringToUTF8 s buf len hp1))"

text \<open>The bytes of the returned buffer and the block allocated for it.\<close>

definition buffer_of :: "nat \<times> heap \<Rightarrow> byte list" where
  "buffer_of r =
     (case map_of (blocks (snd r)) (fst r) of
        Some n \<Rightarrow> read_bytes (mem (snd r)) (fst r) n
      | None \<Rightarrow> [])"

section \<open>The event delegation registry\<close>

text \<open>
  The function created at each call of \<open>register_listener\<close> is a closure over \<open>type\<close> and
  \<open>sel\<close>; \<open>fn_id\<close> is the identity of the function object, by which the listener list of
  the document compares callbacks.
\<close>

record handler =
  fn_id :: nat
  h_type :: jsstring
  h_sel :: jsstring

text \<open>
  The state that the registry reads and writes: the object \<open>window.__bh_handlers\<close>
  (\<open>None\<close> while the property is undefined), the event listener list of \<open>document\<close>
  (event type and callback; every listener of the registry is non-capturing), and the
  number of function objects created so far.
\<close>

record env =
  bh_handlers :: "(jsstring \<times> handler) list option"
  listeners :: "(jsstring \<times> handler) list"
  next_fn :: nat

definition init_env :: env where
  "init_env = \<lparr>bh_handlers = None, listeners = [], next_fn = 0\<rparr>"

text \<open>
  \<open>addEventListener\<close> does nothing when the list already holds a listener with the same
  type and callback; \<open>removeEventListener\<close> removes that listener if there is one, and
  does nothing for the callback \<open>undefined\<close>.
\<close>

definition add_event_listener ::
  "jsstring \<Rightarrow> handler \<Rightarrow> (jsstring \<times> handler) list \<Rightarrow> (jsstring \<times> handler) list" where
  "add_event_listener ty cb ls = (if (ty, cb) \<in> set ls then ls else ls @ [(ty, cb)])"

definition remove_event_listener ::
  "jsstring \<Rightarrow> handler option \<Rightarrow> (jsstring \<times> handler) list \<Rightarrow> (jsstring \<times> handler) list" where
  "remove_event_listener ty cb ls = (case cb of None \<Rightarrow> ls | Some f \<Rightarrow> remove1 (ty, f) ls)"

definition handler_key :: "jsstring \<Rightarrow> jsstring \<Rightarrow> jsstring" where
  "handler_key type sel = type @ js '':'' @ sel"

definition register_listener :: "env \<Rightarrow> jsstring \<Rightarrow> jsstring \<Rightarrow> env" where
  "register_listener e typ selector =
     (let tbl = (case bh_handlers e of None \<Rightarrow> [] | Some t \<Rightarrow> t);
          type = typ;
          sel = selector;
          handler = \<lparr>fn_id = next_fn e, h_type = type, h_sel = sel\<rparr>
      in \<lparr>bh_handlers = Some (AList.update (handler_key type sel) handler tbl),
          listeners = add_event_listener type handler (listeners e),
          next_fn = Suc (next_fn e)\<rparr>)"

text \<open>
  \<open>unregister_listener\<close> reads \<open>window.__bh_handlers[key]\<close> without testing the object:
  while \<open>window.__bh_handlers\<close> is undefined the read raises.
\<close>

definition unregister_listener :: "env \<Rightarrow> jsstring \<Rightarrow> jsstring \<Rightarrow> js_error + env" where
  "unregister_listener e typ selector =
     (let type = typ;
          key = handler_key type selector
      in case bh_handlers e of
           None \<Rightarrow> Inl TypeError
         | Some tbl \<Rightarrow>
             Inr (e\<lparr>listeners := remove_event_listener type (map_of tbl key) (listeners e),
                    bh_handlers := Some (AList.delete key tbl)\<rparr>))"

subsection \<open>Objects with string properties\<close>

text \<open>
  The object \<open>attrs\<close> starts as \<open>{}\<close> and gets string values only. It is modelled by its
  own properties in order of creation. An assignment \<open>attrs[name] = value\<close> creates the
  property, or replaces the value of an existing one in place; for the name
  \<open>__proto__\<close> it runs the setter that every object inherits, which ignores a string, so
  that no property is created. \<open>JSON.stringify\<close> goes through the own properties in the
  order of the language: first the properties whose name is an array index (a decimal
  numeral without leading zero, below \<open>2^32 - 1\<close>) in ascending numeric order, then the
  other properties in order of creation.
\<close>

type_synonym js_object = "(jsstring \<times> jsstring) list"

definition js_assign :: "js_object \<Rightarrow> jsstring \<Rightarrow> jsstring \<Rightarrow> js_object" where
  "js_assign obj name val =
     (if name = js ''__proto__'' then obj else AList.update name val obj)"

definition is_digit :: "16 word \<Rightarrow> bool" where
  "is_digit c \<longleftrightarrow> 0x30 \<le> c \<and> c \<le> 0x39"

definition digits_value :: "jsstring \<Rightarrow> nat" where
  "digits_value ds = foldl (\<lambda>v c. 10 * v + (unat c - 0x30)) 0 ds"

definition is_array_index :: "jsstring \<Rightarrow> bool" where
  "is_array_index k =
     (case k of
        [] \<Rightarrow> False
      | c # cs \<Rightarrow>
          list_all is_digit k \<and> (if c = 0x30 then cs = [] else True) \<and>
          digits_value k < 2 ^ 32 - 1)"

definition own_entries :: "js_object \<Rightarrow> js_object" where
  "own_entries obj =
     sort_key (\<lambda>(k, v). digits_value k) (filter (\<lambda>(k, v). is_array_index k) obj) @
     filter (\<lambda>(k, v). \<not> is_array_index k) obj"

subsection \<open>Events and the handler\<close>

text \<open>
  The target of an event is an element, with its attribute list and, where the browser
  has it, its \<open>matches\<close> method, or the document, or another node (a text node); the
  last two have neither \<open>matches\<close> nor \<open>attributes\<close>. \<open>Element.matches\<close> raises
  \<open>SyntaxError\<close> for a string that is not a selector; the empty string is not a selector.
\<close>

datatype target =
    ElementTarget "(jsstring \<Rightarrow> js_error + bool) option" "(jsstring \<times> jsstring) list"
  | DocumentTarget
  | NodeTarget

text \<open>
  An event has a type and a target; it bubbles or not (\<open>focus\<close> and \<open>blur\<close> do not), and
  a listener on the way from the target to the document may have stopped its
  propagation.
\<close>

record event =
  ev_type :: jsstring
  ev_target :: target
  ev_bubbles :: bool
  ev_stopped :: bool

fun matches_method :: "target \<Rightarrow> (jsstring \<Rightarrow> js_error + bool) option" where
  "matches_method (ElementTarget m as) =
     map_option (\<lambda>f sel. if sel = [] then Inl SyntaxError else f sel) m"
| "matches_method DocumentTarget = None"
| "matches_method NodeTarget = None"

fun attributes :: "target \<Rightarrow> (jsstring \<times> jsstring) list option" where
  "attributes (ElementTarget m as) = Some as"
| "attributes DocumentTarget = None"
| "attributes NodeTarget = None"

text \<open>\<open>el.matches(sel)\<close> as a test on targets: the target has the method and it answers.\<close>

definition el_matches :: "target \<Rightarrow> jsstring \<Rightarrow> js_error + bool" where
  "el_matches el sel = (case matches_method el of None \<Rightarrow> Inl TypeError | Some f \<Rightarrow> f sel)"

text \<open>The loop over \<open>el.attributes\<close> that fills the object \<open>attrs\<close>.\<close>

fun snapshot_loop :: "(jsstring \<times> jsstring) list \<Rightarrow> js_object \<Rightarrow> js_object" where
  "snapshot_loop [] attrs = attrs"
| "snapshot_loop ((name, val) # rest) attrs = snapshot_loop rest (js_assign attrs name val)"

definition snapshot :: "(jsstring \<times> jsstring) list \<Rightarrow> js_object" where
  "snapshot as = snapshot_loop as []"

type_synonym delegated = "jsstring \<times> jsstring \<times> jsstring"

text \<open>
  A call of the handler: the result is the list of calls of \<open>delegate_event\<close> that it
  made (none or one), or the exception it raised. \<open>JSON.stringify\<close> of the host gets the
  properties of \<open>attrs\<close> in the order in which it goes through them.
\<close>

definition forward :: "host \<Rightarrow> handler \<Rightarrow> target \<Rightarrow> js_error + delegated list" where
  "forward h f el =
     (case attributes el of
        None \<Rightarrow> Inl TypeError
      | Some as \<Rightarrow>
          Inr [(h_type f, h_sel f, json_stringify h (own_entries (snapshot as)))])"

definition call_handler :: "host \<Rightarrow> handler \<Rightarrow> event \<Rightarrow> js_error + delegated list" where
  "call_handler h f e =
     (let el = ev_target e;
          sel = h_sel f
      in if sel \<noteq> []
         then (case matches_method el of
                 None \<Rightarrow> Inr []
               | Some m \<Rightarrow>
                   (case m sel of
                      Inl err \<Rightarrow> Inl err
                    | Inr False \<Rightarrow> Inr []
                    | Inr True \<Rightarrow> forward h f el))
         else forward h f el)"

text \<open>
  The listeners of the registry are attached to the document and are not capturing.
  An event gets to them when the document is its target, or when it bubbles and its
  propagation has not been stopped on the way. Then the document calls, in order, every
  listener registered for the type of the event; an exception of one listener does not
  stop the others.
\<close>

definition reaches_document :: "event \<Rightarrow> bool" where
  "reaches_document ev =
     (case ev_target ev of
        DocumentTarget \<Rightarrow> True
      | _ \<Rightarrow> ev_bubbles ev \<and> \<not> ev_stopped ev)"

definition dispatch :: "host \<Rightarrow> env \<Rightarrow> event \<Rightarrow> (js_error + delegated list) list" where
  "dispatch h e ev =
     (if reaches_document ev
      then map (\<lambda>(ty, f). call_handler h f ev)
             (filter (\<lambda>(ty, f). ty = ev_type ev) (listeners e))
      else [])"

fun forwarded :: "(js_error + delegated list) list \<Rightarrow> delegated list" where
  "forwarded [] = []"
| "forwarded (Inl err # rs) = forwarded rs"
| "forwarded (Inr ds # rs) = ds @ forwarded rs"

text \<open>
  The native listeners of a pair (the listeners whose callback was created by
  \<open>register_listener\<close> for that pair), and what a dispatch forwards for a pair.
\<close>

definition pair_listeners :: "jsstring \<Rightarrow> jsstring \<Rightarrow> env \<Rightarrow> (jsstring \<times> handler) list" where
  "pair_listeners t s e =
     filter (\<lambda>(ty, f). h_type f = t \<and> h_sel f = s) (listeners e)"

definition forwarded_for :: "jsstring \<Rightarrow> jsstring \<Rightarrow> delegated list \<Rightarrow> delegated list" where
  "forwarded_for t s ds = filter (\<lambda>(ty, sel, snap). ty = t \<and> sel = s) ds"

definition key_entries :: "jsstring \<Rightarrow> env \<Rightarrow> (jsstring \<times> handler) list" where
  "key_entries k e =
     (case bh_handlers e of None \<Rightarrow> [] | Some tbl \<Rightarrow> filter (\<lambda>(k', f). k' = k) tbl)"

text \<open>\<open>register_listener\<close> called \<open>n\<close> times with the same pair.\<close>

primrec register_n :: "nat \<Rightarrow> env \<Rightarrow> jsstring \<Rightarrow> jsstring \<Rightarrow> env" where
  "register_n 0 e t s = e"
| "register_n (Suc n) e t s = register_listener (register_n n e t s) t s"

text \<open>
  The states that calls of the registry produce: every function object in the listener
  list was created before and listens for the type that it forwards, and the keys of
  \<open>window.__bh_handlers\<close> are distinct.
\<close>

definition wf_env :: "env \<Rightarrow> bool" where
  "wf_env e \<longleftrightarrow>
     (\<forall>(ty, f) \<in> set (listeners e). fn_id f < next_fn e \<and> ty = h_type f) \<and>
     (case bh_handlers e of None \<Rightarrow> True | Some tbl \<Rightarrow> distinct (map fst tbl))"

subsection \<open>The size of a document\<close>

fun node_size :: "node \<Rightarrow> nat" where
  "node_size (Element t a ch) = Suc (sum_list (map node_size ch))"
| "node_size (Text s) = 1"
| "node_size (Comment s) = 1"

definition doc_size :: "node list \<Rightarrow> nat" where
  "doc_size ns = sum_list (map node_size ns)"

section \<open>A page, a host and a heap to run the functions on\<close>

text \<open>
  A document with two elements that carry an ID: a \<open>div\<close> with the text \<open>hi\<close> and a
  \<open>p\<close> whose text is the single character U+00E9.
\<close>

definition page :: document where
  "page =
     [Element (js ''html'') []
        [Element (js ''body'') []
           [Element (js ''div'') [(js ''id'', js ''bh-1''), (js ''class'', js ''btn'')]
              [Text (js ''hi'')],
            Element (js ''p'') [(js ''id'', js ''bh-2'')] [Text [0xE9]]]]]"

text \<open>
  A host that parses one markup string, serialises an element with a single text child
  to that text, and writes an object as \<open>name=value;\<close> pairs.
\<close>

definition example_host :: host where
  "example_host =
     \<lparr>parse_html = (\<lambda>ctx html.
        if html = js ''<i></i><b></b>''
        then [Element (js ''i'') [] [], Element (js ''b'') [] []] else []),
      inner_html_of = (\<lambda>n. case n of Element t a [Text s] \<Rightarrow> s | _ \<Rightarrow> []),
      json_stringify = (\<lambda>obj. concat (map (\<lambda>(k, v). k @ js ''='' @ v @ js '';'') obj)),
      attr_name_valid = (\<lambda>k. k \<noteq> []),
      attr_name_norm = (\<lambda>k. k)\<rparr>"

definition example_heap :: heap where
  "example_heap = \<lparr>mem = (\<lambda>a. 0xFF), blocks = [(8, 16)]\<rparr>"

text \<open>An element that matches the selector \<open>.btn\<close> and one that does not.\<close>

definition btn_target :: target where
  "btn_target =
     ElementTarget (Some (\<lambda>sel. Inr (sel = js ''.btn'')))
       [(js ''id'', js ''bh-1''), (js ''class'', js ''btn'')]"

definition plain_target :: target where
  "plain_target = ElementTarget (Some (\<lambda>sel. Inr False)) [(js ''id'', js ''bh-2'')]"

text \<open>A document whose root element carries an ID.\<close>

definition root_page :: document where
  "root_page =
     [Element (js ''html'') [(js ''id'', js ''bh-0'')]
        [Element (js ''body'') [] [Text (js ''hi'')]]]"

text \<open>An element with an attribute named \<open>__proto__\<close>.\<close>

definition proto_target :: target where
  "proto_target =
     ElementTarget (Some (\<lambda>sel. Inr True))
       [(js ''__proto__'', js ''x''), (js ''class'', js ''btn'')]"

text \<open>A \<open>click\<close>, which bubbles, and a \<open>focus\<close>, which does not.\<close>

definition click_on :: "target \<Rightarrow> event" where
  "click_on el =
     \<lparr>ev_type = js ''click'', ev_target = el, ev_bubbles = True, ev_stopped = False\<rparr>"

definition focus_on :: "target \<Rightarrow> event" where
  "focus_on el =
     \<lparr>ev_type = js ''focus'', ev_target = el, ev_bubbles = False, ev_stopped = False\<rparr>"

section \<open>The mutation primitives and a missing or live target\<close>

text \<open>
  With no element of the given ID the eight primitives that test \<open>if (!el)\<close> (or
  \<open>if (el)\<close>) before they use the element return without an exception and leave the
  document as it is.
\<close>

lemma guarded_primitives_missing_target:
  assumes "get_element_by_id doc i = None"
  shows "set_outer_html h doc i html = Inr doc"
    and "set_inner_html h doc i html = Inr doc"
    and "append_js h doc i html = Inr doc"
    and "prepend h doc i html = Inr doc"
    and "before h doc i html = Inr doc"
    and "after h doc i html = Inr doc"
    and "set_attr h doc i key val = Inr doc"
    and "remove_attr h doc i key = Inr doc"
  using assms
  by (simp_all add: set_outer_html_def set_inner_html_def append_js_def prepend_def
      before_def after_def set_attr_def remove_attr_def)

text \<open>The six primitives of the variant without the tests raise instead.\<close>

lemma unguarded_primitives_missing_target:
  assumes "get_element_by_id doc i = None"
  shows "set_outer_html_unguarded h doc i html = Inl TypeError"
    and "set_inner_html_unguarded h doc i html = Inl TypeError"
    and "append_unguarded h doc i html = Inl TypeError"
    and "prepend_unguarded h doc i html = Inl TypeError"
    and "before_unguarded h doc i html = Inl TypeError"
    and "after_unguarded h doc i html = Inl TypeError"
  using assms
  by (simp_all add: set_outer_html_unguarded_def set_inner_html_unguarded_def
      append_unguarded_def prepend_unguarded_def before_unguarded_def after_unguarded_def)

text \<open>\<open>remove\<close> never changes the document: when it returns, the document is the old one.\<close>

lemma remove_js_returns_document: "remove_js doc i = Inr doc' \<Longrightarrow> doc' = doc"
  by (auto simp: remove_js_def split: option.splits)

lemma remove_js_live: "get_element_by_id doc i = Some p \<Longrightarrow> remove_js doc i = Inr doc"
  by (simp add: remove_js_def)

lemma page_ids:
  "get_element_by_id page (js ''bh-1'') = Some [0, 0, 0]"
  "get_element_by_id page (js ''bh-2'') = Some [0, 0, 1]"
  "get_element_by_id page (js ''bh-9'') = None"
  by (simp_all add: page_def get_element_by_id_def has_id_def js_def)

text \<open>
  Claim C2 (the remove primitive removes the element that the ID names). On the page,
  \<open>bh-1\<close> names the live \<open>div\<close> at path \<open>[0, 0, 0]\<close>; \<open>remove\<close> returns and the
  document still is the page, with the \<open>div\<close> in it: the call \<open>el.remove()\<close> sits in the
  branch taken when \<open>el\<close> is \<open>null\<close>.
\<close>

theorem remove_keeps_live_element:
  "get_element_by_id page (js ''bh-1'') = Some [0, 0, 0] \<and>
   remove_js page (js ''bh-1'') = Inr page \<and>
   node_at [0, 0, 0] page =
     Some (Element (js ''div'') [(js ''id'', js ''bh-1''), (js ''class'', js ''btn'')]
       [Text (js ''hi'')])"
  by (simp add: page_ids remove_js_def) (simp add: page_def)

text \<open>
  Claim C3 (a primitive called with the ID of no live element completes without an
  exception and leaves the document unchanged). No element of the page has the ID
  \<open>bh-9\<close>, and \<open>remove\<close> raises \<open>TypeError\<close> there: it calls \<open>el.remove()\<close> on
  \<open>null\<close>.
\<close>

theorem remove_raises_on_missing_target:
  "get_element_by_id page (js ''bh-9'') = None \<and>
   remove_js page (js ''bh-9'') = Inl TypeError"
  by (simp add: page_ids remove_js_def)

section \<open>\<open>get_inner_html\<close> and its buffer\<close>

lemma heap_top_fold_ge: "(m::nat) \<le> fold (\<lambda>(base, n) m. max (base + n) m) bs m"
proof (induction bs arbitrary: m)
  case Nil
  show ?case by simp
next
  case (Cons b bs)
  obtain base n where b: "b = (base, n)" by (cases b)
  have "m \<le> max (base + n) m" by simp
  also have "\<dots> \<le> fold (\<lambda>(base, n) m. max (base + n) m) bs (max (base + n) m)"
    by (rule Cons.IH)
  finally show ?case by (simp add: b)
qed

lemma heap_top_fold_mem:
  "(b, n) \<in> set bs \<Longrightarrow> b + n \<le> fold (\<lambda>(base, n) m. max (base + n) m) bs (m::nat)"
proof (induction bs arbitrary: m)
  case Nil
  then show ?case by simp
next
  case (Cons c bs)
  show ?case
  proof (cases "c = (b, n)")
    case True
    have "b + n \<le> max (b + n) m" by simp
    also have "\<dots> \<le> fold (\<lambda>(base, n) m. max (base + n) m) bs (max (b + n) m)"
      by (rule heap_top_fold_ge)
    finally show ?thesis by (simp add: True)
  next
    case False
    with Cons.prems have "(b, n) \<in> set bs" by simp
    then show ?thesis by (cases c) (simp add: Cons.IH)
  qed
qed

lemma heap_top_above: "(b, n) \<in> set bs \<Longrightarrow> b + n \<le> heap_top bs"
  unfolding heap_top_def by (rule heap_top_fold_mem)

lemma malloc_base_fresh: "Suc (heap_top bs) \<notin> fst ` set bs"
proof
  assume "Suc (heap_top bs) \<in> fst ` set bs"
  then obtain n where "(Suc (heap_top bs), n) \<in> set bs" by auto
  from heap_top_above [OF this] show False by simp
qed

lemma map_of_new_block: "map_of (bs @ [(Suc (heap_top bs), n)]) (Suc (heap_top bs)) = Some n"
proof -
  have "map_of bs (Suc (heap_top bs)) = None"
    using malloc_base_fresh [of bs] by (simp add: map_of_eq_None_iff)
  then show ?thesis by (simp add: map_add_def)
qed

lemma read_bytes_write_bytes:
  "read_bytes (write_bytes p bs m) p (length bs + k) = bs @ read_bytes m (p + length bs) k"
proof -
  have "[p ..< p + (length bs + k)] = [p ..< p + length bs] @ [p + length bs ..< p + length bs + k]"
    using upt_add_eq_append [of p "p + length bs" k] by (simp add: add.assoc)
  moreover have "map (write_bytes p bs m) [p ..< p + length bs] = bs"
  proof (rule nth_equalityI)
    show "length (map (write_bytes p bs m) [p ..< p + length bs]) = length bs" by simp
  next
    fix i assume "i < length (map (write_bytes p bs m) [p ..< p + length bs])"
    then have "i < length bs" by simp
    then show "map (write_bytes p bs m) [p ..< p + length bs] ! i = bs ! i"
      by (simp add: write_bytes_def)
  qed
  moreover have "map (write_bytes p bs m) [p + length bs ..< p + length bs + k]
      = map m [p + length bs ..< p + length bs + k]"
    by (rule map_cong) (simp_all add: write_bytes_def)
  ultimately show ?thesis by (simp add: read_bytes_def)
qed

lemma write_fitting_length: "length (write_fitting us room) \<le> room"
  by (induction us room rule: write_fitting.induct) auto

text \<open>
  What \<open>get_inner_html\<close> returns and leaves in the heap, for the string \<open>s\<close> that it
  read: the bytes that fit, the NUL, and the rest of the block as the memory held it.
\<close>

lemma get_inner_html_result:
  assumes s: "s = (case element_by_id doc i of Some el \<Rightarrow> inner_html_of h el | None \<Rightarrow> [])"
    and w: "w = write_fitting (code_points s) (length s)"
    and r: "r = get_inner_html h doc hp i"
  shows "fst r = Suc (heap_top (blocks hp))"
    and "blocks (snd r) = blocks hp @ [(fst r, length s + 1)]"
    and "buffer_of r = w @ [0] @ read_bytes (mem hp) (fst r + length w + 1) (length s - length w)"
proof -
  let ?buf = "Suc (heap_top (blocks hp))"
  have r': "r = (?buf, \<lparr>mem = write_bytes ?buf (w @ [0]) (mem hp),
              blocks = blocks hp @ [(?buf, length s + 1)]\<rparr>)"
    by (simp add: r get_inner_html_def s [symmetric] malloc_def stringToUTF8_def Let_def w)
  show "fst r = ?buf" by (simp add: r')
  show "blocks (snd r) = blocks hp @ [(fst r, length s + 1)]" by (simp add: r')
  have len: "length s + 1 = length (w @ [0]) + (length s - length w)"
    using write_fitting_length [of "code_points s" "length s"] by (simp add: w)
  have "buffer_of r = read_bytes (write_bytes ?buf (w @ [0]) (mem hp)) ?buf (length s + 1)"
    by (simp add: r' buffer_of_def map_of_new_block del: map_of_append)
  also have "\<dots> = (w @ [0]) @ read_bytes (mem hp) (?buf + length (w @ [0])) (length s - length w)"
    unfolding len by (rule read_bytes_write_bytes)
  finally show "buffer_of r = w @ [0] @ read_bytes (mem hp) (fst r + length w + 1) (length s - length w)"
    by (simp add: r')
qed

lemma read_bytes_0: "read_bytes m p 0 = []"
  by (simp add: read_bytes_def)

text \<open>
  Claim C10 (\<open>get_inner_html\<close> never fails on a missing element). For an ID that names no
  live element the call returns a pointer that is not null, to a block of one byte that
  lies above every block allocated before and that stays allocated; the buffer holds the
  single byte NUL, the empty C string.
\<close>

theorem get_inner_html_missing_element:
  assumes "get_element_by_id doc i = None"
  shows "fst (get_inner_html h doc hp i) \<noteq> 0 \<and>
    (\<forall>(b, n) \<in> set (blocks hp). b + n < fst (get_inner_html h doc hp i)) \<and>
    blocks (snd (get_inner_html h doc hp i)) = blocks hp @ [(fst (get_inner_html h doc hp i), 1)] \<and>
    buffer_of (get_inner_html h doc hp i) = [0] \<and>
    c_string (buffer_of (get_inner_html h doc hp i)) = []"
proof -
  have s: "[] = (case element_by_id doc i of Some el \<Rightarrow> inner_html_of h el | None \<Rightarrow> [])"
    by (simp add: element_by_id_def assms)
  note res = get_inner_html_result [where s = "[]" and doc = doc and i = i and h = h and hp = hp,
      OF s refl refl]
  have "\<forall>(b, n) \<in> set (blocks hp). b + n < Suc (heap_top (blocks hp))"
    using heap_top_above by (auto simp: less_Suc_eq_le)
  moreover have "buffer_of (get_inner_html h doc hp i) = [0]"
    using res(3) by (simp add: read_bytes_0)
  ultimately show ?thesis using res(1,2) by (simp add: c_string_def)
qed

theorem get_inner_html_missing_element_witness:
  "get_element_by_id page (js ''bh-9'') = None \<and>
   fst (get_inner_html example_host page example_heap (js ''bh-9'')) = 25 \<and>
   buffer_of (get_inner_html example_host page example_heap (js ''bh-9'')) = [0]"
proof -
  have n: "get_element_by_id page (js ''bh-9'') = None"
    by (simp add: page_def get_element_by_id_def has_id_def js_def)
  have "fst (get_inner_html example_host page example_heap (js ''bh-9'')) = 25"
    by (simp add: get_inner_html_def element_by_id_def n malloc_def Let_def example_heap_def heap_top_def)
  with n get_inner_html_missing_element [OF n, of example_host example_heap] show ?thesis by simp
qed

text \<open>
  For inner HTML made of ASCII characters only, one byte per code unit, the block of
  \<open>s.length + 1\<close> bytes is large enough and the buffer holds the complete encoding and
  the NUL.
\<close>

lemma ascii_not_surrogate: "u < 0x80 \<Longrightarrow> \<not> is_surrogate u"
  by (simp add: is_surrogate_def word_less_nat_alt word_le_nat_alt)

lemma ascii_utf8_bytes: "(u :: 16 word) < 0x80 \<Longrightarrow> utf8_bytes (unat u) = [ucast u]"
  by (simp add: utf8_bytes_def word_less_nat_alt)

lemma ascii_code_points: "\<forall>u \<in> set s. u < 0x80 \<Longrightarrow> code_points s = map unat s"
  for s :: jsstring
  by (induction s rule: code_points.induct) (simp_all add: ascii_not_surrogate)

lemma ascii_write_fitting:
  "\<forall>u \<in> set s. u < 0x80 \<Longrightarrow> length s \<le> room \<Longrightarrow>
   write_fitting (map unat s) room = map ucast s"
  for s :: jsstring
proof (induction s arbitrary: room)
  case Nil
  show ?case by simp
next
  case (Cons u s)
  then show ?case by (simp add: ascii_utf8_bytes)
qed

lemma ascii_utf8_encode: "\<forall>u \<in> set s. u < 0x80 \<Longrightarrow> utf8_encode s = map ucast s"
  for s :: jsstring
  by (induction s) (simp_all add: utf8_encode_def ascii_code_points ascii_utf8_bytes)

lemma get_inner_html_ascii:
  assumes "element_by_id doc i = Some el" and "\<forall>u \<in> set (inner_html_of h el). u < 0x80"
  shows "buffer_of (get_inner_html h doc hp i) = utf8_encode (inner_html_of h el) @ [0]"
proof -
  let ?s = "inner_html_of h el"
  have s: "?s = (case element_by_id doc i of Some el \<Rightarrow> inner_html_of h el | None \<Rightarrow> [])"
    by (simp add: assms(1))
  have w: "map ucast ?s = write_fitting (code_points ?s) (length ?s)"
    by (simp add: ascii_code_points [OF assms(2)] ascii_write_fitting [OF assms(2)])
  note res = get_inner_html_result [where s = ?s and w = "map ucast ?s" and doc = doc
      and i = i and h = h and hp = hp, OF s w refl]
  from res(3) show ?thesis
    by (simp add: read_bytes_0 ascii_utf8_encode [OF assms(2)])
qed

text \<open>
  Claim C6 (the buffer holds the complete UTF-8 encoding of the inner HTML, also for
  strings with non-ASCII characters). The inner HTML of the element \<open>bh-2\<close> of the page
  is the one character U+00E9, one UTF-16 code unit, whose UTF-8 encoding has the two
  bytes C3 A9. \<open>get_inner_html\<close> allocates \<open>s.length + 1 = 2\<close> bytes and passes 2 as the
  limit to \<open>stringToUTF8\<close>, which has room for one byte before the NUL and so writes the
  NUL alone: the buffer is the empty C string followed by a byte that was never written.
\<close>

theorem get_inner_html_truncates_non_ascii:
  "element_by_id page (js ''bh-2'') =
     Some (Element (js ''p'') [(js ''id'', js ''bh-2'')] [Text [0xE9]]) \<and>
   inner_html_of example_host (Element (js ''p'') [(js ''id'', js ''bh-2'')] [Text [0xE9]]) = [0xE9] \<and>
   utf8_encode [0xE9] = [0xC3, 0xA9] \<and>
   buffer_of (get_inner_html example_host page example_heap (js ''bh-2'')) = [0, 0xFF] \<and>
   c_string (buffer_of (get_inner_html example_host page example_heap (js ''bh-2''))) = []"
proof -
  have el: "element_by_id page (js ''bh-2'') =
      Some (Element (js ''p'') [(js ''id'', js ''bh-2'')] [Text [0xE9]])"
    by (simp add: element_by_id_def page_ids) (simp add: page_def)
  have ih: "inner_html_of example_host (Element (js ''p'') [(js ''id'', js ''bh-2'')] [Text [0xE9]]) = [0xE9]"
    by (simp add: example_host_def)
  have enc: "utf8_encode [0xE9] = [0xC3, 0xA9]"
    by (simp add: utf8_encode_def utf8_bytes_def is_surrogate_def)
  have s: "[0xE9] = (case element_by_id page (js ''bh-2'') of
      Some el \<Rightarrow> inner_html_of example_host el | None \<Rightarrow> [])"
    by (simp add: el ih)
  have w: "[] = write_fitting (code_points [0xE9]) (length [0xE9 :: 16 word])"
    by (simp add: utf8_bytes_def is_surrogate_def)
  note res = get_inner_html_result [where s = "[0xE9]" and w = "[]" and doc = page
      and i = "js ''bh-2''" and h = example_host and hp = example_heap, OF s w refl]
  have buf: "buffer_of (get_inner_html example_host page example_heap (js ''bh-2'')) = [0, 0xFF]"
    using res(3) by (simp add: read_bytes_def example_heap_def)
  show ?thesis using el ih enc buf by (simp add: c_string_def)
qed

section \<open>The registry before any registration\<close>

text \<open>
  Once \<open>window.__bh_handlers\<close> exists, unregistering a pair whose key it does not hold
  changes nothing: \<open>removeEventListener\<close> gets \<open>undefined\<close> and \<open>delete\<close> finds no key.
\<close>

lemma unregister_listener_absent_key:
  assumes "bh_handlers e = Some tbl" and "map_of tbl (handler_key t s) = None"
  shows "unregister_listener e t s = Inr e"
proof -
  have "handler_key t s \<notin> fst ` set tbl"
    using assms(2) by (simp add: map_of_eq_None_iff)
  then have "AList.delete (handler_key t s) tbl = tbl"
    by simp
  then show ?thesis
    using assms by (simp add: unregister_listener_def remove_event_listener_def)
qed

text \<open>
  Claim C4 (unregistering a pair that is not registered is a no-op, also when nothing
  was ever registered). In the state of a fresh page \<open>window.__bh_handlers\<close> is
  undefined and \<open>unregister_listener\<close> raises \<open>TypeError\<close> when it reads
  \<open>window.__bh_handlers[key]\<close>; only \<open>register_listener\<close> creates the object.
\<close>

theorem unregister_listener_raises_on_fresh_page:
  "bh_handlers init_env = None \<and>
   unregister_listener init_env (js ''click'') (js ''.btn'') = Inl TypeError"
  by (simp add: unregister_listener_def init_env_def)

section \<open>Registering a pair\<close>

text \<open>
  The fresh page is well formed, and \<open>register_listener\<close> keeps a state well formed.
  In a well-formed state the function created by the call is not yet in the listener
  list, so \<open>addEventListener\<close> appends it.
\<close>

lemma wf_env_init: "wf_env init_env"
  by (simp add: wf_env_def init_env_def)

lemma register_listener_fields:
  "bh_handlers (register_listener e t s) =
     Some (AList.update (handler_key t s) \<lparr>fn_id = next_fn e, h_type = t, h_sel = s\<rparr>
       (case bh_handlers e of None \<Rightarrow> [] | Some tbl \<Rightarrow> tbl))"
  "listeners (register_listener e t s) =
     add_event_listener t \<lparr>fn_id = next_fn e, h_type = t, h_sel = s\<rparr> (listeners e)"
  "next_fn (register_listener e t s) = Suc (next_fn e)"
  by (simp_all add: register_listener_def Let_def)

lemma fresh_handler_not_listening:
  assumes "wf_env e"
  shows "(ty, \<lparr>fn_id = next_fn e, h_type = t, h_sel = s\<rparr>) \<notin> set (listeners e)"
proof
  assume "(ty, \<lparr>fn_id = next_fn e, h_type = t, h_sel = s\<rparr>) \<in> set (listeners e)"
  with assms have "fn_id \<lparr>fn_id = next_fn e, h_type = t, h_sel = s\<rparr> < next_fn e"
    unfolding wf_env_def by blast
  then show False by simp
qed

lemma register_listener_listeners:
  assumes "wf_env e"
  shows "listeners (register_listener e t s) =
    listeners e @ [(t, \<lparr>fn_id = next_fn e, h_type = t, h_sel = s\<rparr>)]"
  using fresh_handler_not_listening [OF assms]
  by (simp add: register_listener_fields add_event_listener_def)

lemma wf_env_register_listener:
  assumes "wf_env e"
  shows "wf_env (register_listener e t s)"
proof -
  have "\<forall>(ty, f) \<in> set (listeners e). fn_id f < Suc (next_fn e) \<and> ty = h_type f"
    using assms unfolding wf_env_def by (auto simp: less_Suc_eq)
  moreover have "distinct (map fst (case bh_handlers e of None \<Rightarrow> [] | Some tbl \<Rightarrow> tbl))"
    using assms unfolding wf_env_def by (simp split: option.splits)
  ultimately show ?thesis
    unfolding wf_env_def
    by (simp add: register_listener_fields(1,3) register_listener_listeners [OF assms]
        distinct_update)
qed

lemma filter_key_update:
  "distinct (map fst tbl) \<Longrightarrow>
   filter (\<lambda>(k', f). k' = k) (AList.update k v tbl) = [(k, v)]"
proof (induction tbl)
  case Nil
  show ?case by simp
next
  case (Cons a tbl)
  obtain k' v' where a: "a = (k', v')" by (cases a)
  show ?case
  proof (cases "k' = k")
    case True
    with Cons.prems a have "k \<notin> fst ` set tbl" by simp
    then have "filter (\<lambda>(k', f). k' = k) tbl = []"
      by (force simp: filter_empty_conv)
    with True a show ?thesis by simp
  next
    case False
    with Cons a show ?thesis by simp
  qed
qed

lemma filter_other_key_update:
  "k \<noteq> k0 \<Longrightarrow>
   filter (\<lambda>(k', f). k' = k) (AList.update k0 v tbl) = filter (\<lambda>(k', f). k' = k) tbl"
  by (induction tbl) auto

lemma key_entries_register_listener:
  assumes "wf_env e"
  shows "key_entries (handler_key t s) (register_listener e t s) =
    [(handler_key t s, \<lparr>fn_id = next_fn e, h_type = t, h_sel = s\<rparr>)]"
proof -
  have "distinct (map fst (case bh_handlers e of None \<Rightarrow> [] | Some tbl \<Rightarrow> tbl))"
    using assms unfolding wf_env_def by (simp split: option.splits)
  then show ?thesis
    by (simp add: key_entries_def register_listener_fields filter_key_update)
qed

lemma other_key_entries_register_listener:
  assumes "k \<noteq> handler_key t s"
  shows "key_entries k (register_listener e t s) = key_entries k e"
  using assms
  by (simp add: key_entries_def register_listener_fields filter_other_key_update
      split: option.splits)

lemma wf_env_register_n: "wf_env e \<Longrightarrow> wf_env (register_n n e t s)"
  by (induction n) (simp_all add: wf_env_register_listener)

lemma next_fn_register_n: "next_fn (register_n n e t s) = next_fn e + n"
  by (induction n) (simp_all add: register_listener_fields)

lemma listeners_register_n:
  assumes "wf_env e"
  shows "listeners (register_n n e t s) =
    listeners e @ map (\<lambda>k. (t, \<lparr>fn_id = next_fn e + k, h_type = t, h_sel = s\<rparr>)) [0..<n]"
proof (induction n)
  case 0
  show ?case by simp
next
  case (Suc n)
  have "wf_env (register_n n e t s)" by (rule wf_env_register_n [OF assms])
  from register_listener_listeners [OF this] Suc show ?case
    by (simp add: next_fn_register_n)
qed

lemma other_key_entries_register_n:
  "k \<noteq> handler_key t s \<Longrightarrow> key_entries k (register_n n e t s) = key_entries k e"
  by (induction n) (simp_all add: other_key_entries_register_listener)

text \<open>
  Claim C1, as the code has it. \<open>register_listener\<close> does not look for an earlier
  registration of the pair: each call creates a new function and attaches it. After \<open>n\<close>
  calls with the same pair \<open>(t, s)\<close> the listener list of the document is the old one
  followed by \<open>n\<close> new listeners for the type \<open>t\<close>, one function object per call, so that
  the pair has \<open>n\<close> more native listeners than before. From the first call on,
  \<open>window.__bh_handlers\<close> has exactly one entry for the key of the pair, and it holds the
  function of the latest call; the entries of all other keys are as before. Only the
  first registration of a pair gives one native listener and one entry.
\<close>

theorem register_listener_repeated:
  assumes "wf_env e"
  shows "listeners (register_n n e t s) =
      listeners e @ map (\<lambda>k. (t, \<lparr>fn_id = next_fn e + k, h_type = t, h_sel = s\<rparr>)) [0..<n] \<and>
    length (pair_listeners t s (register_n n e t s)) = length (pair_listeners t s e) + n \<and>
    (0 < n \<longrightarrow> key_entries (handler_key t s) (register_n n e t s) =
      [(handler_key t s, \<lparr>fn_id = next_fn e + (n - 1), h_type = t, h_sel = s\<rparr>)]) \<and>
    (\<forall>k. k \<noteq> handler_key t s \<longrightarrow> key_entries k (register_n n e t s) = key_entries k e)"
proof -
  note ls = listeners_register_n [OF assms, of n t s]
  have pl: "length (pair_listeners t s (register_n n e t s)) = length (pair_listeners t s e) + n"
    by (simp add: pair_listeners_def ls)
  have ke: "key_entries (handler_key t s) (register_n n e t s) =
      [(handler_key t s, \<lparr>fn_id = next_fn e + (n - 1), h_type = t, h_sel = s\<rparr>)]" if "0 < n"
  proof -
    from that obtain k where n: "n = Suc k" by (cases n) auto
    have "wf_env (register_n k e t s)" by (rule wf_env_register_n [OF assms])
    from key_entries_register_listener [OF this] show ?thesis
      by (simp add: n next_fn_register_n)
  qed
  from ls pl ke other_key_entries_register_n [of _ t s n e] show ?thesis by blast
qed

text \<open>Two registrations on a fresh page: two listeners, and the entry holds the second.\<close>

theorem register_listener_repeated_witness:
  "wf_env init_env \<and>
   listeners (register_n 2 init_env (js ''click'') (js ''.btn'')) =
     [(js ''click'', \<lparr>fn_id = 0, h_type = js ''click'', h_sel = js ''.btn''\<rparr>),
      (js ''click'', \<lparr>fn_id = 1, h_type = js ''click'', h_sel = js ''.btn''\<rparr>)] \<and>
   length (pair_listeners (js ''click'') (js ''.btn'')
     (register_n 2 init_env (js ''click'') (js ''.btn''))) = 2 \<and>
   key_entries (handler_key (js ''click'') (js ''.btn''))
     (register_n 2 init_env (js ''click'') (js ''.btn'')) =
     [(handler_key (js ''click'') (js ''.btn''),
       \<lparr>fn_id = 1, h_type = js ''click'', h_sel = js ''.btn''\<rparr>)]"
proof -
  have i: "listeners init_env = []" "next_fn init_env = 0"
    "pair_listeners (js ''click'') (js ''.btn'') init_env = []"
    by (simp_all add: init_env_def pair_listeners_def)
  have u: "[0..<2] = [0, Suc 0]" by (simp add: upt_rec)
  from register_listener_repeated [OF wf_env_init, of 2 "js ''click''" "js ''.btn''"]
  show ?thesis by (simp add: wf_env_init i u)
qed

text \<open>
  Claim C1 as stated (registering the same pair any number of times results in exactly
  one native listener) fails at the second call: on a fresh page, two calls with
  \<open>("click", ".btn")\<close> leave two native listeners for the pair.
\<close>

theorem register_twice_attaches_two_listeners:
  "length (pair_listeners (js ''click'') (js ''.btn'')
     (register_listener (register_listener init_env (js ''click'') (js ''.btn''))
        (js ''click'') (js ''.btn''))) = 2 \<and>
   length (listeners
     (register_listener (register_listener init_env (js ''click'') (js ''.btn''))
        (js ''click'') (js ''.btn''))) \<noteq> 1"
  by (simp add: register_listener_def add_event_listener_def init_env_def pair_listeners_def Let_def)

section \<open>Unregistering\<close>

text \<open>
  In a well-formed state, \<open>unregister_listener\<close> right after \<open>register_listener\<close> with
  the same pair removes the listener that the call attached and deletes the key: the
  listener list is the one from before the two calls.
\<close>

lemma unregister_after_register:
  assumes "wf_env e"
  shows "unregister_listener (register_listener e t s) t s =
    Inr \<lparr>bh_handlers = Some (AList.delete (handler_key t s)
            (case bh_handlers e of None \<Rightarrow> [] | Some tbl \<Rightarrow> tbl)),
         listeners = listeners e,
         next_fn = Suc (next_fn e)\<rparr>"
proof -
  let ?f = "\<lparr>fn_id = next_fn e, h_type = t, h_sel = s\<rparr>"
  let ?tbl = "case bh_handlers e of None \<Rightarrow> [] | Some tbl \<Rightarrow> tbl"
  have "map_of (AList.update (handler_key t s) ?f ?tbl) (handler_key t s) = Some ?f"
    by (simp add: update_conv')
  moreover have "remove1 (t, ?f) (listeners e @ [(t, ?f)]) = listeners e"
    using fresh_handler_not_listening [OF assms, of t t s] by (simp add: remove1_append)
  ultimately show ?thesis
    by (simp add: unregister_listener_def Let_def register_listener_fields(1,3)
        register_listener_listeners [OF assms] remove_event_listener_def delete_update_same)
qed

text \<open>\<open>unregister_listener\<close> keeps a state well formed, too.\<close>

lemma wf_env_unregister_listener:
  assumes "wf_env e" and "unregister_listener e t s = Inr e'"
  shows "wf_env e'"
proof -
  from assms(2) obtain tbl where tbl: "bh_handlers e = Some tbl"
    and e': "e' = e\<lparr>listeners := remove_event_listener t (map_of tbl (handler_key t s)) (listeners e),
        bh_handlers := Some (AList.delete (handler_key t s) tbl)\<rparr>"
    by (auto simp: unregister_listener_def Let_def split: option.splits)
  have "set (remove_event_listener t (map_of tbl (handler_key t s)) (listeners e)) \<subseteq> set (listeners e)"
    using set_remove1_subset [of _ "listeners e"]
    by (auto simp: remove_event_listener_def split: option.splits)
  moreover have "distinct (map fst (AList.delete (handler_key t s) tbl))"
    using assms(1) tbl by (simp add: wf_env_def distinct_delete)
  ultimately show ?thesis
    using assms(1) unfolding wf_env_def e' by auto
qed

lemma filter_key_delete: "filter (\<lambda>(k', f). k' = k) (AList.delete k tbl) = []"
  by (induction tbl) auto

lemma filter_other_key_delete:
  "k \<noteq> k0 \<Longrightarrow>
   filter (\<lambda>(k', f). k' = k) (AList.delete k0 tbl) = filter (\<lambda>(k', f). k' = k) tbl"
  by (induction tbl) auto

section \<open>What the listeners forward\<close>

text \<open>
  What a dispatch forwards for a pair, when the target is an element: the triple of the
  pair, once for every native listener of the pair, if the event gets to the document
  and the selector is empty or matches; nothing otherwise.
\<close>

lemma forwarded_append: "forwarded (rs @ rs') = forwarded rs @ forwarded rs'"
  by (induction rs rule: forwarded.induct) auto

lemma forwarded_for_append:
  "forwarded_for t s (ds @ ds') = forwarded_for t s ds @ forwarded_for t s ds'"
  by (simp add: forwarded_for_def)

text \<open>What one call of a handler forwards, for an element target.\<close>

lemma forwarded_call_handler:
  assumes "ev_target ev = ElementTarget m as"
  shows "forwarded [call_handler h f ev] =
    (if h_sel f = [] \<or> el_matches (ev_target ev) (h_sel f) = Inr True
     then [(h_type f, h_sel f, json_stringify h (own_entries (snapshot as)))] else [])"
proof (cases "h_sel f = []")
  case True
  with assms show ?thesis by (simp add: call_handler_def forward_def Let_def)
next
  case False
  show ?thesis
  proof (cases m)
    case None
    with False assms show ?thesis by (simp add: call_handler_def el_matches_def Let_def)
  next
    case (Some g)
    show ?thesis
    proof (cases "g (h_sel f)")
      case (Inl err)
      with False Some assms show ?thesis
        by (simp add: call_handler_def el_matches_def Let_def)
    next
      case (Inr b)
      with False Some assms show ?thesis
        by (cases b) (simp_all add: call_handler_def el_matches_def forward_def Let_def)
    qed
  qed
qed

lemma forwarded_for_call_handler:
  assumes "ev_target ev = ElementTarget m as" and "h_type f = t"
  shows "forwarded_for t s (forwarded [call_handler h f ev]) =
    (if h_sel f = s \<and> (s = [] \<or> el_matches (ev_target ev) s = Inr True)
     then [(t, s, json_stringify h (own_entries (snapshot as)))] else [])"
proof (cases "h_sel f = s")
  case True
  then show ?thesis
    by (simp add: forwarded_call_handler [OF assms(1)] assms(2) forwarded_for_def)
next
  case False
  then show ?thesis
    by (simp add: forwarded_call_handler [OF assms(1)] forwarded_for_def)
qed

lemma forwarded_for_listeners:
  assumes "\<forall>(ty, f) \<in> set ls. ty = h_type f" and "ev_target ev = ElementTarget m as"
  shows "forwarded_for t s
      (forwarded (map (\<lambda>(ty, f). call_handler h f ev) (filter (\<lambda>(ty, f). ty = t) ls))) =
    (if s = [] \<or> el_matches (ev_target ev) s = Inr True
     then replicate (length (filter (\<lambda>(ty, f). h_type f = t \<and> h_sel f = s) ls))
            (t, s, json_stringify h (own_entries (snapshot as)))
     else [])"
  using assms(1)
proof (induction ls)
  case Nil
  show ?case by (simp add: forwarded_for_def)
next
  case (Cons l ls)
  obtain ty f where l: "l = (ty, f)" by (cases l)
  from Cons.prems l have ty: "ty = h_type f" and rest: "\<forall>(ty, f) \<in> set ls. ty = h_type f"
    by auto
  note IH = Cons.IH [OF rest]
  let ?rest = "map (\<lambda>(ty, f). call_handler h f ev) (filter (\<lambda>(ty, f). ty = t) ls)"
  show ?case
  proof (cases "ty = t")
    case False
    with ty have "h_type f \<noteq> t" by simp
    with False l IH show ?thesis by simp
  next
    case True
    with ty have ht: "h_type f = t" by simp
    have "forwarded (call_handler h f ev # ?rest) =
        forwarded [call_handler h f ev] @ forwarded ?rest"
      using forwarded_append [of "[call_handler h f ev]" ?rest] by simp
    then have split: "forwarded_for t s (forwarded (call_handler h f ev # ?rest)) =
        forwarded_for t s (forwarded [call_handler h f ev]) @ forwarded_for t s (forwarded ?rest)"
      by (simp add: forwarded_for_append)
    show ?thesis
    proof (cases "h_sel f = s")
      case True
      with split IH ht \<open>ty = t\<close> l forwarded_for_call_handler [OF assms(2) ht, of s h]
      show ?thesis by simp
    next
      case False
      with split IH ht \<open>ty = t\<close> l forwarded_for_call_handler [OF assms(2) ht, of s h]
      show ?thesis by simp
    qed
  qed
qed

lemma forwarded_for_dispatch:
  assumes "wf_env e" and "ev_type ev = t" and "ev_target ev = ElementTarget m as"
  shows "forwarded_for t s (forwarded (dispatch h e ev)) =
    (if reaches_document ev \<and> (s = [] \<or> el_matches (ev_target ev) s = Inr True)
     then replicate (length (pair_listeners t s e))
            (t, s, json_stringify h (own_entries (snapshot as)))
     else [])"
proof -
  have "\<forall>(ty, f) \<in> set (listeners e). ty = h_type f"
    using assms(1) unfolding wf_env_def by auto
  from forwarded_for_listeners [OF this assms(3), of t s h] assms(2) show ?thesis
    by (simp add: dispatch_def pair_listeners_def forwarded_for_def)
qed

text \<open>Whatever the target, what is forwarded for a pair comes from its listeners.\<close>

lemma set_forwarded: "d \<in> set (forwarded rs) \<longleftrightarrow> (\<exists>ds. Inr ds \<in> set rs \<and> d \<in> set ds)"
  by (induction rs rule: forwarded.induct) auto

lemma call_handler_Inr:
  assumes "call_handler h f ev = Inr ds" and "d \<in> set ds"
  shows "fst d = h_type f \<and> fst (snd d) = h_sel f"
  using assms
  by (auto simp: call_handler_def forward_def Let_def
      split: if_splits option.splits sum.splits bool.splits)

lemma no_listener_no_forwarding:
  assumes "pair_listeners t s e = []"
  shows "forwarded_for t s (forwarded (dispatch h e ev)) = []"
proof -
  have "\<not> (fst d = t \<and> fst (snd d) = s)" if "d \<in> set (forwarded (dispatch h e ev))" for d
  proof -
    from that obtain ds where ds: "Inr ds \<in> set (dispatch h e ev)" and d: "d \<in> set ds"
      by (auto simp: set_forwarded)
    from ds obtain ty f where l: "(ty, f) \<in> set (listeners e)"
      and c: "call_handler h f ev = Inr ds"
      by (auto simp: dispatch_def split: if_splits)
    from assms l have "\<not> (h_type f = t \<and> h_sel f = s)"
      by (auto simp: pair_listeners_def filter_empty_conv)
    with call_handler_Inr [OF c d] show ?thesis by simp
  qed
  then show ?thesis
    by (force simp: forwarded_for_def filter_empty_conv)
qed

text \<open>
  Claim C7, as the code has it. From a well-formed state, \<open>register_listener(t, s)\<close>
  followed by \<open>unregister_listener(t, s)\<close> returns without an exception; the listener
  that the registration attached is removed, \<open>window.__bh_handlers\<close> has no entry for the
  key of the pair and the entries of the other keys are as before. The listener list is
  the one from before the two calls, so every dispatch calls the same listeners as
  before them. If no native listener of the pair was attached before the two calls,
  none is attached after them and no event makes the registry forward anything for the
  pair. A listener that an earlier registration of the same pair attached stays
  attached.
\<close>

theorem register_then_unregister:
  assumes "wf_env e"
  shows "\<exists>e'. unregister_listener (register_listener e t s) t s = Inr e' \<and>
    e' = \<lparr>bh_handlers = Some (AList.delete (handler_key t s)
             (case bh_handlers e of None \<Rightarrow> [] | Some tbl \<Rightarrow> tbl)),
          listeners = listeners e,
          next_fn = Suc (next_fn e)\<rparr> \<and>
    (t, \<lparr>fn_id = next_fn e, h_type = t, h_sel = s\<rparr>) \<in> set (listeners (register_listener e t s)) \<and>
    (t, \<lparr>fn_id = next_fn e, h_type = t, h_sel = s\<rparr>) \<notin> set (listeners e') \<and>
    key_entries (handler_key t s) e' = [] \<and>
    (\<forall>k. k \<noteq> handler_key t s \<longrightarrow> key_entries k e' = key_entries k e) \<and>
    pair_listeners t s e' = pair_listeners t s e \<and>
    (\<forall>ev. dispatch h e' ev = dispatch h e ev) \<and>
    (pair_listeners t s e = [] \<longrightarrow>
       (\<forall>ev. forwarded_for t s (forwarded (dispatch h e' ev)) = []))"
proof -
  let ?f = "\<lparr>fn_id = next_fn e, h_type = t, h_sel = s\<rparr>"
  let ?tbl = "case bh_handlers e of None \<Rightarrow> [] | Some tbl \<Rightarrow> tbl"
  define e' where "e' = \<lparr>bh_handlers = Some (AList.delete (handler_key t s) ?tbl),
    listeners = listeners e, next_fn = Suc (next_fn e)\<rparr>"
  have u: "unregister_listener (register_listener e t s) t s = Inr e'"
    unfolding e'_def by (rule unregister_after_register [OF assms])
  have l: "listeners e' = listeners e" by (simp add: e'_def)
  have a: "(t, ?f) \<in> set (listeners (register_listener e t s))"
    by (simp add: register_listener_listeners [OF assms])
  have r: "(t, ?f) \<notin> set (listeners e')"
    using fresh_handler_not_listening [OF assms, of t t s] by (simp add: l)
  have k: "key_entries (handler_key t s) e' = []"
    by (simp add: key_entries_def e'_def filter_key_delete)
  have o: "key_entries k e' = key_entries k e" if "k \<noteq> handler_key t s" for k
    using that by (simp add: key_entries_def e'_def filter_other_key_delete split: option.splits)
  have p: "pair_listeners t s e' = pair_listeners t s e"
    by (simp add: pair_listeners_def l)
  have d: "dispatch h e' ev = dispatch h e ev" for ev
    by (simp add: dispatch_def l)
  have n: "forwarded_for t s (forwarded (dispatch h e' ev)) = []"
    if "pair_listeners t s e = []" for ev
    using no_listener_no_forwarding [of t s e' h ev] that p by simp
  from u a r k o p d n show ?thesis
    unfolding e'_def [symmetric] by blast
qed

text \<open>On a fresh page the two calls leave no listener and an empty table.\<close>

theorem register_then_unregister_witness:
  "wf_env init_env \<and>
   pair_listeners (js ''click'') (js ''.btn'') init_env = [] \<and>
   unregister_listener (register_listener init_env (js ''click'') (js ''.btn''))
     (js ''click'') (js ''.btn'') = Inr \<lparr>bh_handlers = Some [], listeners = [], next_fn = 1\<rparr> \<and>
   forwarded_for (js ''click'') (js ''.btn'')
     (forwarded (dispatch example_host \<lparr>bh_handlers = Some [], listeners = [], next_fn = 1\<rparr>
        (click_on btn_target))) = []"
proof -
  have p: "pair_listeners (js ''click'') (js ''.btn'') init_env = []"
    by (simp add: pair_listeners_def init_env_def)
  have i: "bh_handlers init_env = None" "listeners init_env = []" "next_fn init_env = 0"
    by (simp_all add: init_env_def)
  from register_then_unregister [OF wf_env_init, of "js ''click''" "js ''.btn''" example_host] p
  show ?thesis by (auto simp: wf_env_init i)
qed

text \<open>
  Claim C7 as stated (after \<open>register_listener(t, s)\<close> followed by
  \<open>unregister_listener(t, s)\<close> no native listener for the pair remains and no event is
  forwarded) fails in a state in which the pair is registered already: on a page where
  \<open>("click", ".btn")\<close> has been registered, registering it again and unregistering it
  leaves the listener of the first registration attached, with no entry in
  \<open>window.__bh_handlers\<close>, and a click on a matching element is still forwarded.
\<close>

theorem unregister_leaves_earlier_registration:
  "unregister_listener
     (register_listener (register_listener init_env (js ''click'') (js ''.btn''))
        (js ''click'') (js ''.btn''))
     (js ''click'') (js ''.btn'') =
     Inr \<lparr>bh_handlers = Some [],
          listeners = [(js ''click'', \<lparr>fn_id = 0, h_type = js ''click'', h_sel = js ''.btn''\<rparr>)],
          next_fn = 2\<rparr> \<and>
   pair_listeners (js ''click'') (js ''.btn'')
     \<lparr>bh_handlers = Some [],
      listeners = [(js ''click'', \<lparr>fn_id = 0, h_type = js ''click'', h_sel = js ''.btn''\<rparr>)],
      next_fn = 2\<rparr> \<noteq> [] \<and>
   forwarded (dispatch example_host
     \<lparr>bh_handlers = Some [],
      listeners = [(js ''click'', \<lparr>fn_id = 0, h_type = js ''click'', h_sel = js ''.btn''\<rparr>)],
      next_fn = 2\<rparr>
     (click_on btn_target)) =
     [(js ''click'', js ''.btn'', js ''id=bh-1;class=btn;'')]"
proof -
  have u: "unregister_listener
     (register_listener (register_listener init_env (js ''click'') (js ''.btn''))
        (js ''click'') (js ''.btn''))
     (js ''click'') (js ''.btn'') =
     Inr \<lparr>bh_handlers = Some [],
          listeners = [(js ''click'', \<lparr>fn_id = 0, h_type = js ''click'', h_sel = js ''.btn''\<rparr>)],
          next_fn = 2\<rparr>"
    by (simp add: unregister_listener_def register_listener_def add_event_listener_def
        remove_event_listener_def init_env_def Let_def handler_key_def)
  have a: "is_array_index (js ''id'') = False" "is_array_index (js ''class'') = False"
    by (simp_all add: is_array_index_def is_digit_def js_def)
  have s: "own_entries (snapshot [(js ''id'', js ''bh-1''), (js ''class'', js ''btn'')]) =
      [(js ''id'', js ''bh-1''), (js ''class'', js ''btn'')]"
    by (simp add: own_entries_def snapshot_def js_assign_def a) (simp add: js_def)
  have f: "forwarded (dispatch example_host
     \<lparr>bh_handlers = Some [],
      listeners = [(js ''click'', \<lparr>fn_id = 0, h_type = js ''click'', h_sel = js ''.btn''\<rparr>)],
      next_fn = 2\<rparr>
     (click_on btn_target)) =
     [(js ''click'', js ''.btn'', js ''id=bh-1;class=btn;'')]"
    by (simp add: dispatch_def reaches_document_def click_on_def btn_target_def
        call_handler_def forward_def s Let_def)
      (simp add: example_host_def js_def)
  from u f show ?thesis by (simp add: pair_listeners_def)
qed

section \<open>The snapshot of the attributes\<close>

text \<open>
  The loop over the attributes gives the object a property for every attribute name
  except \<open>__proto__\<close>. An element has no two attributes of the same name, and then the
  properties are the attributes, in the order in which \<open>JSON.stringify\<close> goes through
  them.
\<close>

lemma update_absent_key: "k \<notin> fst ` set al \<Longrightarrow> AList.update k v al = al @ [(k, v)]"
  by (induction al) auto

lemma snapshot_loop_keys:
  "fst ` set (snapshot_loop as acc) = fst ` set acc \<union> (fst ` set as - {js ''__proto__''})"
  by (induction as acc rule: snapshot_loop.induct) (auto simp: js_assign_def dom_update)

lemma snapshot_loop_distinct:
  "distinct (map fst as) \<Longrightarrow> fst ` set as \<inter> fst ` set acc = {} \<Longrightarrow>
   snapshot_loop as acc = acc @ filter (\<lambda>(n, v). n \<noteq> js ''__proto__'') as"
proof (induction as acc rule: snapshot_loop.induct)
  case (1 acc)
  show ?case by simp
next
  case (2 name val rest acc)
  from "2.prems" have n: "name \<notin> fst ` set acc" by auto
  have d: "distinct (map fst rest)" using "2.prems" by simp
  have "fst ` set rest \<inter> fst ` set (js_assign acc name val) = {}"
    using "2.prems" by (auto simp: js_assign_def dom_update)
  from "2.IH" [OF d this] n show ?case
    by (simp add: js_assign_def update_absent_key)
qed

lemma snapshot_distinct:
  "distinct (map fst as) \<Longrightarrow> snapshot as = filter (\<lambda>(n, v). n \<noteq> js ''__proto__'') as"
  using snapshot_loop_distinct [of as "[]"] by (simp add: snapshot_def)

lemma set_own_entries: "set (own_entries obj) = set obj"
  by (auto simp: own_entries_def)

lemma snapshot_names:
  "fst ` set (own_entries (snapshot as)) - {js ''__proto__''} = fst ` set as - {js ''__proto__''}"
  by (auto simp: set_own_entries snapshot_def snapshot_loop_keys)

lemma snapshot_values:
  assumes "distinct (map fst as)" and "n \<noteq> js ''__proto__''"
  shows "(n, v) \<in> set (own_entries (snapshot as)) \<longleftrightarrow> (n, v) \<in> set as"
  using assms(2) by (auto simp: set_own_entries snapshot_distinct [OF assms(1)])

text \<open>An attribute named \<open>__proto__\<close> is not in the snapshot.\<close>

lemma snapshot_without_proto: "js ''__proto__'' \<notin> fst ` set (own_entries (snapshot as))"
  by (auto simp: set_own_entries snapshot_def snapshot_loop_keys)

text \<open>
  Claim C5, as the code has it. Let the state be well formed and let an event of type
  \<open>t\<close> have an element with the attribute list \<open>as\<close> as its target.
  \<^item> If the event gets to the listeners of the document (it bubbles and its propagation
    was not stopped) and the target matches \<open>s\<close> (\<open>el.matches(s)\<close> is \<open>true\<close>), every
    native listener of the pair \<open>(t, s)\<close> forwards the triple
    \<open>(t, s, JSON.stringify(attrs))\<close>: what is forwarded for the pair is that triple once
    per native listener, hence exactly once for a pair registered once.
  \<^item> If \<open>s\<close> is not empty and \<open>el.matches(s)\<close> is not \<open>true\<close> (it is \<open>false\<close>, it
    raises, or the target has no such method), nothing is forwarded for the pair.
  \<^item> If the event does not get to the listeners of the document, nothing is forwarded.
  \<^item> Apart from the name \<open>__proto__\<close>, the names of the properties of \<open>attrs\<close> are the
    attribute names of the target, and, the names of an element being distinct, a
    property has the value of the attribute of that name.
\<close>

theorem matching_event_forwards_snapshot:
  assumes "wf_env e" and "ev_type ev = t" and "ev_target ev = ElementTarget m as"
  shows "(reaches_document ev \<and> el_matches (ev_target ev) s = Inr True \<longrightarrow>
      forwarded_for t s (forwarded (dispatch h e ev)) =
        replicate (length (pair_listeners t s e))
          (t, s, json_stringify h (own_entries (snapshot as)))) \<and>
    (s \<noteq> [] \<and> el_matches (ev_target ev) s \<noteq> Inr True \<longrightarrow>
      forwarded_for t s (forwarded (dispatch h e ev)) = []) \<and>
    (\<not> reaches_document ev \<longrightarrow>
      forwarded_for t s (forwarded (dispatch h e ev)) = []) \<and>
    fst ` set (own_entries (snapshot as)) - {js ''__proto__''} =
      fst ` set as - {js ''__proto__''} \<and>
    (distinct (map fst as) \<longrightarrow>
      (\<forall>n v. n \<noteq> js ''__proto__'' \<longrightarrow>
         ((n, v) \<in> set (own_entries (snapshot as)) \<longleftrightarrow> (n, v) \<in> set as)))"
  using forwarded_for_dispatch [OF assms, of s h] snapshot_names [of as]
    snapshot_values [of as]
  by simp

lemma example_snapshots:
  "own_entries (snapshot [(js ''id'', js ''bh-1''), (js ''class'', js ''btn'')]) =
     [(js ''id'', js ''bh-1''), (js ''class'', js ''btn'')]"
  "own_entries (snapshot [(js ''id'', js ''bh-2'')]) = [(js ''id'', js ''bh-2'')]"
  "own_entries (snapshot [(js ''__proto__'', js ''x''), (js ''class'', js ''btn'')]) =
     [(js ''class'', js ''btn'')]"
proof -
  have a: "is_array_index (js ''id'') = False" "is_array_index (js ''class'') = False"
    by (simp_all add: is_array_index_def is_digit_def js_def)
  have p: "js ''id'' \<noteq> js ''__proto__''" "js ''class'' \<noteq> js ''__proto__''"
    "js ''id'' \<noteq> js ''class''"
    by (simp_all add: js_def)
  show "own_entries (snapshot [(js ''id'', js ''bh-1''), (js ''class'', js ''btn'')]) =
     [(js ''id'', js ''bh-1''), (js ''class'', js ''btn'')]"
    using p by (simp add: own_entries_def snapshot_def js_assign_def a)
  show "own_entries (snapshot [(js ''id'', js ''bh-2'')]) = [(js ''id'', js ''bh-2'')]"
    using p by (simp add: own_entries_def snapshot_def js_assign_def a)
  show "own_entries (snapshot [(js ''__proto__'', js ''x''), (js ''class'', js ''btn'')]) =
     [(js ''class'', js ''btn'')]"
    using p by (simp add: own_entries_def snapshot_def js_assign_def a)
qed

text \<open>
  Attributes named \<open>b\<close>, \<open>2\<close> and \<open>1\<close>, in this order: the properties named by an
  array index come first, in ascending order.
\<close>

lemma array_index_names_first:
  "own_entries (snapshot [(js ''b'', js ''x''), (js ''2'', js ''y''), (js ''1'', js ''z'')]) =
     [(js ''1'', js ''z''), (js ''2'', js ''y''), (js ''b'', js ''x'')]"
proof -
  have a: "is_array_index (js ''b'') = False" "is_array_index (js ''2'') = True"
    "is_array_index (js ''1'') = True"
    by (simp_all add: is_array_index_def is_digit_def digits_value_def js_def)
  have d: "digits_value (js ''1'') = 1" "digits_value (js ''2'') = 2"
    by (simp_all add: digits_value_def js_def)
  have p: "js ''b'' \<noteq> js ''__proto__''" "js ''2'' \<noteq> js ''__proto__''"
    "js ''1'' \<noteq> js ''__proto__''" "js ''b'' \<noteq> js ''2''" "js ''b'' \<noteq> js ''1''"
    "js ''2'' \<noteq> js ''1''"
    by (simp_all add: js_def)
  show ?thesis
    using p by (simp add: own_entries_def snapshot_def js_assign_def a d)
qed

lemma example_json:
  "json_stringify example_host [(js ''id'', js ''bh-1''), (js ''class'', js ''btn'')] =
     js ''id=bh-1;class=btn;''"
  "json_stringify example_host [(js ''id'', js ''bh-2'')] = js ''id=bh-2;''"
  by (simp_all add: example_host_def js_def)

lemma example_matches:
  "el_matches btn_target (js ''.btn'') = Inr True"
  "el_matches plain_target (js ''.btn'') = Inr False"
  by (simp_all add: el_matches_def btn_target_def plain_target_def js_def)

text \<open>
  A click on an element that matches, one on an element that does not, and one whose
  propagation was stopped, after one registration of \<open>("click", ".btn")\<close>.
\<close>

theorem matching_event_forwards_snapshot_witness:
  "wf_env (register_listener init_env (js ''click'') (js ''.btn'')) \<and>
   reaches_document (click_on btn_target) \<and>
   el_matches btn_target (js ''.btn'') = Inr True \<and>
   forwarded_for (js ''click'') (js ''.btn'')
     (forwarded (dispatch example_host (register_listener init_env (js ''click'') (js ''.btn''))
        (click_on btn_target))) =
     [(js ''click'', js ''.btn'', js ''id=bh-1;class=btn;'')] \<and>
   el_matches plain_target (js ''.btn'') \<noteq> Inr True \<and>
   forwarded_for (js ''click'') (js ''.btn'')
     (forwarded (dispatch example_host (register_listener init_env (js ''click'') (js ''.btn''))
        (click_on plain_target))) = [] \<and>
   \<not> reaches_document ((click_on btn_target)\<lparr>ev_stopped := True\<rparr>) \<and>
   forwarded_for (js ''click'') (js ''.btn'')
     (forwarded (dispatch example_host (register_listener init_env (js ''click'') (js ''.btn''))
        ((click_on btn_target)\<lparr>ev_stopped := True\<rparr>))) = [] \<and>
   distinct (map fst [(js ''id'', js ''bh-1''), (js ''class'', js ''btn'')]) \<and>
   (js ''class'', js ''btn'') \<in>
     set (own_entries (snapshot [(js ''id'', js ''bh-1''), (js ''class'', js ''btn'')]))"
proof -
  let ?click = "js ''click''" and ?btn = "js ''.btn''"
  let ?as = "[(js ''id'', js ''bh-1''), (js ''class'', js ''btn'')]"
  let ?e = "register_listener init_env ?click ?btn"
  let ?stopped = "(click_on btn_target)\<lparr>ev_stopped := True\<rparr>"
  have wf: "wf_env ?e" by (rule wf_env_register_listener [OF wf_env_init])
  have "listeners init_env = []" by (simp add: init_env_def)
  then have n: "length (pair_listeners ?click ?btn ?e) = 1"
    by (simp add: pair_listeners_def register_listener_listeners [OF wf_env_init])
  have r: "reaches_document (click_on btn_target)" "reaches_document (click_on plain_target)"
    "\<not> reaches_document ?stopped"
    by (simp_all add: reaches_document_def click_on_def btn_target_def plain_target_def)
  have ty: "ev_type (click_on btn_target) = ?click" "ev_type (click_on plain_target) = ?click"
    "ev_type ?stopped = ?click"
    by (simp_all add: click_on_def)
  have t1: "ev_target (click_on btn_target) =
      ElementTarget (Some (\<lambda>sel. Inr (sel = ?btn))) ?as"
    and t2: "ev_target (click_on plain_target) =
      ElementTarget (Some (\<lambda>sel. Inr False)) [(js ''id'', js ''bh-2'')]"
    and t3: "ev_target ?stopped = ElementTarget (Some (\<lambda>sel. Inr (sel = ?btn))) ?as"
    by (simp_all add: click_on_def btn_target_def plain_target_def)
  have m1: "el_matches (ev_target (click_on btn_target)) ?btn = Inr True"
    and m2: "el_matches (ev_target (click_on plain_target)) ?btn \<noteq> Inr True"
    by (simp_all add: click_on_def example_matches)
  have b: "?btn \<noteq> []" by (simp add: js_def)
  have d: "distinct (map fst ?as)" and c: "js ''class'' \<noteq> js ''__proto__''"
    by (simp_all add: js_def)
  from matching_event_forwards_snapshot [OF wf ty(1) t1, of ?btn example_host] r(1) m1 n d c
  have a1: "forwarded_for ?click ?btn (forwarded (dispatch example_host ?e (click_on btn_target))) =
      [(?click, ?btn, js ''id=bh-1;class=btn;'')]"
    and a4: "(js ''class'', js ''btn'') \<in> set (own_entries (snapshot ?as))"
    by (simp_all add: example_snapshots example_json)
  from matching_event_forwards_snapshot [OF wf ty(2) t2, of ?btn example_host] m2 b
  have a2: "forwarded_for ?click ?btn (forwarded (dispatch example_host ?e (click_on plain_target))) = []"
    by simp
  from matching_event_forwards_snapshot [OF wf ty(3) t3, of ?btn example_host] r(3)
  have a3: "forwarded_for ?click ?btn (forwarded (dispatch example_host ?e ?stopped)) = []"
    by simp
  from wf r a1 a2 a3 a4 d show ?thesis
    by (simp add: example_matches)
qed

text \<open>
  Claim C5 as stated (for every registered pair and every event of its type whose target
  matches, exactly the triple is forwarded) fails for an event that does not bubble:
  with \<open>("focus", ".btn")\<close> registered, a \<open>focus\<close> event at an element that matches
  \<open>.btn\<close> forwards nothing. It also fails for a pair registered twice: a click on a
  matching element forwards the triple twice.
\<close>

theorem matching_event_not_forwarded_once:
  "el_matches btn_target (js ''.btn'') = Inr True \<and>
   forwarded (dispatch example_host (register_listener init_env (js ''focus'') (js ''.btn''))
     (focus_on btn_target)) = [] \<and>
   forwarded (dispatch example_host
     (register_listener (register_listener init_env (js ''click'') (js ''.btn''))
        (js ''click'') (js ''.btn''))
     (click_on btn_target)) =
     [(js ''click'', js ''.btn'', js ''id=bh-1;class=btn;''),
      (js ''click'', js ''.btn'', js ''id=bh-1;class=btn;'')]"
proof -
  have f: "forwarded (dispatch example_host (register_listener init_env (js ''focus'') (js ''.btn''))
     (focus_on btn_target)) = []"
    by (simp add: dispatch_def reaches_document_def focus_on_def btn_target_def)
  have b: "js ''.btn'' \<noteq> []" by (simp add: js_def)
  have c: "forwarded (dispatch example_host
     (register_listener (register_listener init_env (js ''click'') (js ''.btn''))
        (js ''click'') (js ''.btn''))
     (click_on btn_target)) =
     [(js ''click'', js ''.btn'', js ''id=bh-1;class=btn;''),
      (js ''click'', js ''.btn'', js ''id=bh-1;class=btn;'')]"
    using b
    by (simp add: dispatch_def reaches_document_def click_on_def btn_target_def
        register_listener_def add_event_listener_def init_env_def Let_def call_handler_def
        forward_def example_snapshots example_json)
  from f c show ?thesis by (simp add: example_matches)
qed

text \<open>
  Claim C9, as the code has it. A handler created for the type \<open>t\<close> and the empty
  selector forwards \<open>(t, "", JSON.stringify(attrs))\<close> for every element target, whatever
  its \<open>matches\<close> method is or would answer: the test \<open>sel && \<dots>\<close> stops at the empty
  string. In a well-formed state, an event of type \<open>t\<close> at an element that gets to the
  listeners of the document (it bubbles and its propagation was not stopped) makes
  every native listener of the pair \<open>(t, "")\<close> forward that triple, so after one more
  \<open>register_listener(t, "")\<close> it is forwarded once more; an event that does not get
  there forwards nothing. Apart from the name \<open>__proto__\<close>, the names of the properties
  of \<open>attrs\<close> are the attribute names of the target, and, the names of an element being
  distinct, a property has the value of the attribute of that name.
\<close>

theorem empty_selector_forwards_every_element:
  assumes "wf_env e" and "ev_type ev = t" and "ev_target ev = ElementTarget m as"
  shows "call_handler h \<lparr>fn_id = k, h_type = t, h_sel = []\<rparr> ev =
      Inr [(t, [], json_stringify h (own_entries (snapshot as)))] \<and>
    forwarded_for t [] (forwarded (dispatch h e ev)) =
      (if reaches_document ev
       then replicate (length (pair_listeners t [] e))
              (t, [], json_stringify h (own_entries (snapshot as)))
       else []) \<and>
    (reaches_document ev \<longrightarrow>
       forwarded_for t [] (forwarded (dispatch h (register_listener e t []) ev)) =
         replicate (Suc (length (pair_listeners t [] e)))
           (t, [], json_stringify h (own_entries (snapshot as)))) \<and>
    fst ` set (own_entries (snapshot as)) - {js ''__proto__''} =
      fst ` set as - {js ''__proto__''} \<and>
    (distinct (map fst as) \<longrightarrow>
      (\<forall>n v. n \<noteq> js ''__proto__'' \<longrightarrow>
         ((n, v) \<in> set (own_entries (snapshot as)) \<longleftrightarrow> (n, v) \<in> set as)))"
proof -
  have c: "call_handler h \<lparr>fn_id = k, h_type = t, h_sel = []\<rparr> ev =
      Inr [(t, [], json_stringify h (own_entries (snapshot as)))]"
    using assms(3) by (simp add: call_handler_def forward_def Let_def)
  have wf: "wf_env (register_listener e t [])"
    by (rule wf_env_register_listener [OF assms(1)])
  have n: "length (pair_listeners t [] (register_listener e t [])) =
      Suc (length (pair_listeners t [] e))"
    by (simp add: pair_listeners_def register_listener_listeners [OF assms(1)])
  from c forwarded_for_dispatch [OF assms, of "[]" h]
    forwarded_for_dispatch [OF wf assms(2,3), of "[]" h] n
    snapshot_names [of as] snapshot_values [of as]
  show ?thesis by simp
qed

text \<open>A click on an element without \<open>matches\<close> method, after \<open>register_listener("click", "")\<close>.\<close>

theorem empty_selector_forwards_every_element_witness:
  "wf_env init_env \<and>
   reaches_document (click_on (ElementTarget None [(js ''id'', js ''bh-2'')])) \<and>
   call_handler example_host \<lparr>fn_id = 0, h_type = js ''click'', h_sel = []\<rparr>
     (click_on (ElementTarget None [(js ''id'', js ''bh-2'')])) =
     Inr [(js ''click'', [], js ''id=bh-2;'')] \<and>
   forwarded_for (js ''click'') []
     (forwarded (dispatch example_host (register_listener init_env (js ''click'') [])
        (click_on (ElementTarget None [(js ''id'', js ''bh-2'')])))) =
     [(js ''click'', [], js ''id=bh-2;'')] \<and>
   distinct (map fst [(js ''id'', js ''bh-2'')]) \<and>
   (js ''id'', js ''bh-2'') \<in> set (own_entries (snapshot [(js ''id'', js ''bh-2'')]))"
proof -
  let ?ev = "click_on (ElementTarget None [(js ''id'', js ''bh-2'')])"
  have ty: "ev_type ?ev = js ''click''"
    and tg: "ev_target ?ev = ElementTarget None [(js ''id'', js ''bh-2'')]"
    and r: "reaches_document ?ev"
    by (simp_all add: click_on_def reaches_document_def)
  have p: "pair_listeners (js ''click'') [] init_env = []"
    by (simp add: pair_listeners_def init_env_def)
  have i: "js ''id'' \<noteq> js ''__proto__''" by (simp add: js_def)
  from empty_selector_forwards_every_element [OF wf_env_init ty tg, of example_host 0] r p i
  show ?thesis
    by (simp add: wf_env_init example_snapshots example_json)
qed

text \<open>
  Claim C9 as stated (every native event of the type is forwarded) fails for an event
  that does not bubble: with \<open>("focus", "")\<close> registered, a \<open>focus\<close> event at an element
  forwards nothing.
\<close>

theorem empty_selector_non_bubbling_event_not_forwarded:
  "forwarded (dispatch example_host (register_listener init_env (js ''focus'') [])
     (focus_on plain_target)) = []"
  by (simp add: dispatch_def reaches_document_def focus_on_def plain_target_def)

text \<open>
  A click on an element with the attributes \<open>__proto__\<close> and \<open>class\<close>: the snapshot has
  the property \<open>class\<close> only.
\<close>

lemma proto_attribute_not_in_forwarded_snapshot:
  "forwarded (dispatch example_host (register_listener init_env (js ''click'') [])
     (click_on proto_target)) = [(js ''click'', [], js ''class=btn;'')]"
proof -
  have "json_stringify example_host [(js ''class'', js ''btn'')] = js ''class=btn;''"
    by (simp add: example_host_def js_def)
  then show ?thesis
    by (simp add: dispatch_def reaches_document_def click_on_def proto_target_def
        register_listener_def add_event_listener_def init_env_def Let_def call_handler_def
        forward_def example_snapshots)
qed

text \<open>
  With the empty selector and a target that has no attribute list, the handler raises
  when it reads \<open>el.attributes.length\<close>.
\<close>

lemma call_handler_empty_selector_no_attributes:
  assumes "attributes (ev_target ev) = None" and "h_sel f = []"
  shows "call_handler h f ev = Inl TypeError"
  using assms by (simp add: call_handler_def forward_def Let_def)

section \<open>The insertion primitives\<close>

text \<open>
  \<open>getElementById\<close> returns the path of an element that has the ID. Replacing the node
  at a path by one node, or by several, changes the node at that path, or the children
  of its parent, as expected, and changes the size of the document by the difference
  between the new nodes and the old one.
\<close>

lemma node_at_Cons:
  "node_at (i # p) ns = (if i < length ns then node_below p (ns ! i) else None)"
proof (cases p)
  case Nil
  then show ?thesis by simp
next
  case (Cons j q)
  then show ?thesis by (cases "ns ! i") simp_all
qed

lemma find_sound:
  "find_in_node i n = Some q \<Longrightarrow>
     \<exists>t a ch. node_below q n = Some (Element t a ch) \<and> has_id a i"
  "find_in_nodes i k ns = Some p \<Longrightarrow>
     \<exists>j q t a ch. p = (k + j) # q \<and> j < length ns \<and>
       node_below q (ns ! j) = Some (Element t a ch) \<and> has_id a i"
proof (induction i n and i k ns arbitrary: q and p rule: find_in_node_find_in_nodes.induct)
  case (1 i t a ch)
  show ?case
  proof (cases "has_id a i")
    case True
    with "1.prems" show ?thesis by simp
  next
    case False
    with "1.prems" have "find_in_nodes i 0 ch = Some q" by simp
    from "1.IH" [OF False this] obtain j q' t' a' ch'
      where "q = j # q'" "j < length ch"
        "node_below q' (ch ! j) = Some (Element t' a' ch')" "has_id a' i"
      by auto
    then show ?thesis by (auto simp: node_at_Cons)
  qed
next
  case (2 i s)
  then show ?case by simp
next
  case (3 i s)
  then show ?case by simp
next
  case (4 i k)
  then show ?case by simp
next
  case (5 i k n ns)
  show ?case
  proof (cases "find_in_node i n")
    case (Some q)
    with "5.prems" have p: "p = k # q" by simp
    from "5.IH"(1) [OF Some] obtain t a ch
      where "node_below q n = Some (Element t a ch)" "has_id a i" by blast
    with p show ?thesis by (intro exI [of _ 0]) auto
  next
    case None
    with "5.prems" have "find_in_nodes i (Suc k) ns = Some p" by simp
    from "5.IH"(2) [OF None this] obtain j q t a ch
      where "p = (Suc k + j) # q" "j < length ns"
        "node_below q (ns ! j) = Some (Element t a ch)" "has_id a i"
      by blast
    then show ?thesis by (intro exI [of _ "Suc j"]) auto
  qed
qed

lemma get_element_by_id_sound:
  assumes "get_element_by_id doc i = Some p"
  shows "\<exists>t a ch. node_at p doc = Some (Element t a ch) \<and> has_id a i"
proof -
  from find_sound(2) [OF assms [unfolded get_element_by_id_def]] obtain j q t a ch
    where "p = j # q" "j < length doc"
      "node_below q (doc ! j) = Some (Element t a ch)" "has_id a i"
    by auto
  then show ?thesis by (auto simp: node_at_Cons)
qed

lemma update_at_Cons:
  "q \<noteq> [] \<Longrightarrow> update_at (i # q) f ns =
     (if i < length ns
      then (case ns ! i of
              Element t a ch \<Rightarrow> ns[i := Element t a (update_at q f ch)]
            | _ \<Rightarrow> ns)
      else ns)"
  by (cases q) (auto split: node.splits)

lemma node_at_update_at:
  assumes "node_at p ns = Some n" and "f n = [n']"
  shows "node_at p (update_at p f ns) = Some n'"
  using assms
proof (induction p f ns rule: update_at.induct)
  case (1 f ns)
  then show ?case by simp
next
  case (2 i f ns)
  then show ?case by (auto simp: nth_append split: if_splits)
next
  case (3 i j p f ns)
  from "3.prems"(1) have i: "i < length ns" by (simp split: if_splits)
  with "3.prems"(1) obtain t a ch where el: "ns ! i = Element t a ch"
    and sub: "node_at (j # p) ch = Some n"
    by (cases "ns ! i") simp_all
  from "3.IH" [OF i el sub "3.prems"(2)] i el show ?case by simp
qed

lemma children_at_Cons:
  "children_at (i # q) ns =
     (if i < length ns
      then (case ns ! i of Element t a ch \<Rightarrow> children_at q ch | _ \<Rightarrow> None)
      else None)"
proof (cases q)
  case Nil
  then show ?thesis by (simp add: children_at_def split: node.splits)
next
  case (Cons j r)
  then show ?thesis by (simp add: children_at_def split: node.splits)
qed

lemma children_at_update_at:
  assumes "children_at q ns = Some sib" and "k < length sib"
  shows "children_at q (update_at (q @ [k]) f ns) =
    Some (take k sib @ f (sib ! k) @ drop (Suc k) sib)"
  using assms
proof (induction q arbitrary: ns)
  case Nil
  then show ?case by (simp add: children_at_def)
next
  case (Cons i q)
  from Cons.prems(1) have i: "i < length ns"
    by (simp add: children_at_Cons split: if_splits)
  with Cons.prems(1) obtain t a ch where el: "ns ! i = Element t a ch"
    and sub: "children_at q ch = Some sib"
    by (cases "ns ! i") (simp_all add: children_at_Cons)
  have "update_at ((i # q) @ [k]) f ns = ns[i := Element t a (update_at (q @ [k]) f ch)]"
    using i el by (simp add: update_at_Cons)
  with Cons.IH [OF sub Cons.prems(2)] i show ?case
    by (simp add: children_at_Cons)
qed

lemma node_at_parent:
  assumes "node_at p ns = Some n"
  shows "p \<noteq> [] \<and> (\<exists>sib. children_at (butlast p) ns = Some sib \<and>
    last p < length sib \<and> sib ! last p = n)"
  using assms
proof (induction p ns rule: node_at.induct)
  case (1 ns)
  then show ?case by simp
next
  case (2 i ns)
  then show ?case by (simp add: children_at_def split: if_splits)
next
  case (3 i j p ns)
  from "3.prems" have i: "i < length ns" by (simp split: if_splits)
  with "3.prems" obtain t a ch where el: "ns ! i = Element t a ch"
    and sub: "node_at (j # p) ch = Some n"
    by (cases "ns ! i") simp_all
  from "3.IH" [OF i el sub] i el show ?case
    by (simp add: children_at_Cons)
qed

lemma siblings_update_at:
  assumes "node_at p doc = Some n"
  shows "\<exists>sib. siblings p doc = Some sib \<and> last p < length sib \<and> sib ! last p = n \<and>
    siblings p (update_at p f doc) = Some (take (last p) sib @ f n @ drop (Suc (last p)) sib)"
proof -
  from node_at_parent [OF assms] obtain sib where p: "p \<noteq> []"
    and sib: "children_at (butlast p) doc = Some sib"
    and k: "last p < length sib" and n: "sib ! last p = n"
    by blast
  from children_at_update_at [OF sib k, of f] p n
  have "children_at (butlast p) (update_at p f doc) =
      Some (take (last p) sib @ f n @ drop (Suc (last p)) sib)"
    by simp
  with sib k n show ?thesis by (simp add: siblings_def)
qed

lemma update_at_cong:
  assumes "node_at p ns = Some n" and "f n = g n"
  shows "update_at p f ns = update_at p g ns"
  using assms
proof (induction p f ns rule: update_at.induct)
  case (1 f ns)
  then show ?case by simp
next
  case (2 i f ns)
  then show ?case by (simp split: if_splits)
next
  case (3 i j p f ns)
  from "3.prems"(1) have i: "i < length ns" by (simp split: if_splits)
  with "3.prems"(1) obtain t a ch where el: "ns ! i = Element t a ch"
    and sub: "node_at (j # p) ch = Some n"
    by (cases "ns ! i") simp_all
  from "3.IH" [OF i el sub "3.prems"(2)] i el show ?case by simp
qed

lemma doc_size_append: "doc_size (xs @ ys) = doc_size xs + doc_size ys"
  by (simp add: doc_size_def)

lemma doc_size_list_update:
  "i < length ns \<Longrightarrow> doc_size (ns[i := x]) + node_size (ns ! i) = doc_size ns + node_size x"
proof (induction ns arbitrary: i)
  case Nil
  then show ?case by simp
next
  case (Cons y ns)
  then show ?case by (cases i) (simp_all add: doc_size_def)
qed

lemma doc_size_take_drop:
  assumes "i < length ns"
  shows "doc_size (take i ns @ ms @ drop (Suc i) ns) + node_size (ns ! i) =
    doc_size ns + doc_size ms"
proof -
  have e: "take i ns @ [ns ! i] @ drop (Suc i) ns = ns"
    using assms by (simp add: id_take_nth_drop [symmetric])
  have "doc_size (take i ns @ [ns ! i] @ drop (Suc i) ns) =
      doc_size (take i ns) + node_size (ns ! i) + doc_size (drop (Suc i) ns)"
    by (simp add: doc_size_def)
  then have "doc_size ns =
      doc_size (take i ns) + node_size (ns ! i) + doc_size (drop (Suc i) ns)"
    by (simp only: e)
  then show ?thesis by (simp add: doc_size_append)
qed

lemma doc_size_update_at:
  assumes "node_at p ns = Some n"
  shows "doc_size (update_at p f ns) + node_size n = doc_size ns + doc_size (f n)"
  using assms
proof (induction p f ns rule: update_at.induct)
  case (1 f ns)
  then show ?case by simp
next
  case (2 i f ns)
  then show ?case by (auto simp: doc_size_take_drop split: if_splits)
next
  case (3 i j p f ns)
  from "3.prems" have i: "i < length ns" by (simp split: if_splits)
  with "3.prems" obtain t a ch where el: "ns ! i = Element t a ch"
    and sub: "node_at (j # p) ch = Some n"
    by (cases "ns ! i") simp_all
  from "3.IH" [OF i el sub]
  have IH: "doc_size (update_at (j # p) f ch) + node_size n = doc_size ch + doc_size (f n)" .
  from doc_size_list_update [OF i, of "Element t a (update_at (j # p) f ch)"] el
  have "doc_size (ns[i := Element t a (update_at (j # p) f ch)]) + Suc (doc_size ch) =
      doc_size ns + Suc (doc_size (update_at (j # p) f ch))"
    by (simp add: doc_size_def)
  with IH i el show ?case by simp
qed

lemma siblings_replace:
  assumes "node_at p doc = Some n"
  shows "\<exists>sib. siblings p doc = Some sib \<and>
    siblings p (update_at p (\<lambda>el. [x]) doc) = Some (sib[last p := x])"
proof -
  from siblings_update_at [OF assms, of "\<lambda>el. [x]"] obtain sib
    where "siblings p doc = Some sib" "last p < length sib"
      "siblings p (update_at p (\<lambda>el. [x]) doc) =
        Some (take (last p) sib @ [x] @ drop (Suc (last p)) sib)"
    by auto
  then show ?thesis by (simp add: upd_conv_take_nth_drop)
qed

text \<open>
  When the markup parses to no node, \<open>cont.firstChild\<close> is \<open>null\<close> and the four
  primitives raise \<open>TypeError\<close> in \<open>appendChild\<close> or \<open>insertBefore\<close>. When the target
  is a child of the document node, the document rejects an element or a text node
  beside it.
\<close>

lemma insertion_empty_fragment:
  assumes "get_element_by_id doc i = Some p" and "parse_html h (js ''div'') html = []"
  shows "append_js h doc i html = Inl TypeError" and "prepend h doc i html = Inl TypeError"
    and "before h doc i html = Inl TypeError" and "after h doc i html = Inl TypeError"
  using assms by (simp_all add: append_js_def prepend_def before_def after_def first_child_def)

lemma insertion_beside_document_child:
  assumes "get_element_by_id doc i = Some p" and "parse_html h (js ''div'') html = n # rest"
    and "parent_tag p doc = None" and "\<not> insertable_in_document n"
  shows "before h doc i html = Inl HierarchyRequestError"
    and "after h doc i html = Inl HierarchyRequestError"
  using assms
  by (simp_all add: before_def after_def first_child_def insert_beside_def)

lemma page_div:
  "node_at [0, 0, 0] page =
     Some (Element (js ''div'') [(js ''id'', js ''bh-1''), (js ''class'', js ''btn'')]
       [Text (js ''hi'')])"
  "siblings [0, 0, 0] page =
     Some [Element (js ''div'') [(js ''id'', js ''bh-1''), (js ''class'', js ''btn'')]
             [Text (js ''hi'')],
           Element (js ''p'') [(js ''id'', js ''bh-2'')] [Text [0xE9]]]"
  "parent_tag [0, 0, 0] page = Some (js ''body'')"
  by (simp_all add: page_def siblings_def children_at_def parent_tag_def)

lemma root_page_facts:
  "get_element_by_id root_page (js ''bh-0'') = Some [0]"
  "parent_tag [0] root_page = None"
  by (simp_all add: root_page_def get_element_by_id_def has_id_def parent_tag_def js_def)

lemma example_parse:
  "parse_html example_host (js ''div'') (js ''<i></i><b></b>'') =
     [Element (js ''i'') [] [], Element (js ''b'') [] []]"
  by (simp add: example_host_def)

text \<open>
  Claim C8, as the code has it. Let the ID name a live element \<open>el\<close>, with children
  \<open>ch\<close>, at index \<open>last p\<close> among the children \<open>sib\<close> of its parent, and let the markup
  parse to the nodes \<open>n # rest\<close>.
  \<^item> \<open>append\<close> returns the document in which \<open>el\<close> has the children \<open>ch @ [n]\<close>, and
    \<open>prepend\<close> the one in which it has the children \<open>n # ch\<close>; \<open>el\<close> keeps its place
    among its siblings, which do not change.
  \<^item> \<open>before\<close> and \<open>after\<close> return the document in which the children of the parent are
    \<open>sib\<close> with \<open>n\<close> put right before, or right after, \<open>el\<close>, when the parent is an
    element or \<open>n\<close> is a comment.
  \<^item> When \<open>el\<close> is a child of the document node and \<open>n\<close> is an element or a text
    node, \<open>before\<close> and \<open>after\<close> raise \<open>HierarchyRequestError\<close>.
  In each document returned, exactly the node at the path of \<open>el\<close> has been replaced, and
  the document has grown by the nodes of \<open>n\<close> and nothing else: none of the nodes
  \<open>rest\<close> is inserted.
\<close>

theorem insertion_takes_first_parsed_node:
  assumes "get_element_by_id doc i = Some p" and "parse_html h (js ''div'') html = n # rest"
  shows "\<exists>t a ch sib.
    node_at p doc = Some (Element t a ch) \<and>
    siblings p doc = Some sib \<and> last p < length sib \<and> sib ! last p = Element t a ch \<and>
    (\<exists>d. append_js h doc i html = Inr d \<and>
       d = update_at p (\<lambda>el. [Element t a (ch @ [n])]) doc \<and>
       node_at p d = Some (Element t a (ch @ [n])) \<and>
       siblings p d = Some (sib[last p := Element t a (ch @ [n])]) \<and>
       doc_size d = doc_size doc + node_size n) \<and>
    (\<exists>d. prepend h doc i html = Inr d \<and>
       d = update_at p (\<lambda>el. [Element t a (n # ch)]) doc \<and>
       node_at p d = Some (Element t a (n # ch)) \<and>
       siblings p d = Some (sib[last p := Element t a (n # ch)]) \<and>
       doc_size d = doc_size doc + node_size n) \<and>
    (parent_tag p doc \<noteq> None \<or> insertable_in_document n \<longrightarrow>
       (\<exists>d. before h doc i html = Inr d \<and>
          d = update_at p (\<lambda>el. [n, el]) doc \<and>
          siblings p d =
            Some (take (last p) sib @ [n, Element t a ch] @ drop (Suc (last p)) sib) \<and>
          doc_size d = doc_size doc + node_size n) \<and>
       (\<exists>d. after h doc i html = Inr d \<and>
          d = update_at p (\<lambda>el. [el, n]) doc \<and>
          siblings p d =
            Some (take (last p) sib @ [Element t a ch, n] @ drop (Suc (last p)) sib) \<and>
          doc_size d = doc_size doc + node_size n)) \<and>
    (parent_tag p doc = None \<and> \<not> insertable_in_document n \<longrightarrow>
       before h doc i html = Inl HierarchyRequestError \<and>
       after h doc i html = Inl HierarchyRequestError)"
proof -
  from get_element_by_id_sound [OF assms(1)] obtain t a ch
    where el: "node_at p doc = Some (Element t a ch)" by blast
  let ?el = "Element t a ch"
  have fc: "first_child h html = Some n"
    by (simp add: first_child_def assms(2))
  from siblings_update_at [OF el, of "\<lambda>el. [n, el]"] obtain sib
    where sib: "siblings p doc = Some sib" "last p < length sib" "sib ! last p = ?el"
      and bf2: "siblings p (update_at p (\<lambda>el. [n, el]) doc) =
        Some (take (last p) sib @ [n, ?el] @ drop (Suc (last p)) sib)"
    by auto
  from siblings_update_at [OF el, of "\<lambda>el. [el, n]"] sib(1)
  have af2: "siblings p (update_at p (\<lambda>el. [el, n]) doc) =
      Some (take (last p) sib @ [?el, n] @ drop (Suc (last p)) sib)"
    by auto
  have one: "node_at p (update_at p (\<lambda>el. [x]) doc) = Some x \<and>
      siblings p (update_at p (\<lambda>el. [x]) doc) = Some (sib[last p := x]) \<and>
      doc_size (update_at p (\<lambda>el. [x]) doc) + node_size ?el = doc_size doc + node_size x" for x
    using node_at_update_at [OF el, of "\<lambda>el. [x]" x] siblings_replace [OF el, of x] sib(1)
      doc_size_update_at [OF el, of "\<lambda>el. [x]"]
    by (auto simp: doc_size_def)
  have ap1: "append_js h doc i html = Inr (update_at p (\<lambda>el. [Element t a (ch @ [n])]) doc)"
    using update_at_cong [OF el, of "append_child n" "\<lambda>el. [Element t a (ch @ [n])]"]
    by (simp add: append_js_def assms(1) fc)
  have pp1: "prepend h doc i html = Inr (update_at p (\<lambda>el. [Element t a (n # ch)]) doc)"
    using update_at_cong [OF el, of "prepend_child n" "\<lambda>el. [Element t a (n # ch)]"]
    by (simp add: prepend_def assms(1) fc)
  have ap3: "doc_size (update_at p (\<lambda>el. [Element t a (ch @ [n])]) doc) =
      doc_size doc + node_size n"
    using one [of "Element t a (ch @ [n])"] by (simp add: doc_size_def)
  have pp3: "doc_size (update_at p (\<lambda>el. [Element t a (n # ch)]) doc) =
      doc_size doc + node_size n"
    using one [of "Element t a (n # ch)"] by simp
  have bf3: "doc_size (update_at p (\<lambda>el. [n, el]) doc) = doc_size doc + node_size n"
    using doc_size_update_at [OF el, of "\<lambda>el. [n, el]"] by (simp add: doc_size_def)
  have af3: "doc_size (update_at p (\<lambda>el. [el, n]) doc) = doc_size doc + node_size n"
    using doc_size_update_at [OF el, of "\<lambda>el. [el, n]"] by (simp add: doc_size_def)
  have bf1: "before h doc i html = Inr (update_at p (\<lambda>el. [n, el]) doc)"
    and af1: "after h doc i html = Inr (update_at p (\<lambda>el. [el, n]) doc)"
    if "parent_tag p doc \<noteq> None \<or> insertable_in_document n"
    using that by (auto simp: before_def after_def assms(1) fc insert_beside_def)
  have err: "before h doc i html = Inl HierarchyRequestError \<and>
      after h doc i html = Inl HierarchyRequestError"
    if "parent_tag p doc = None \<and> \<not> insertable_in_document n"
    using that by (simp add: before_def after_def assms(1) fc insert_beside_def)
  from el sib ap1 pp1 one [of "Element t a (ch @ [n])"] one [of "Element t a (n # ch)"]
    ap3 pp3 bf1 bf2 bf3 af1 af2 af3 err
  show ?thesis by (intro exI [of _ t] exI [of _ a] exI [of _ ch] exI [of _ sib]) simp
qed

text \<open>
  The four primitives at the \<open>div\<close> of the page, and \<open>before\<close> and \<open>after\<close> at the root
  element of a document.
\<close>

theorem insertion_takes_first_parsed_node_witness:
  "get_element_by_id page (js ''bh-1'') = Some [0, 0, 0] \<and>
   parse_html example_host (js ''div'') (js ''<i></i><b></b>'') =
     [Element (js ''i'') [] [], Element (js ''b'') [] []] \<and>
   parent_tag [0, 0, 0] page \<noteq> None \<and>
   (\<exists>d. append_js example_host page (js ''bh-1'') (js ''<i></i><b></b>'') = Inr d \<and>
      node_at [0, 0, 0] d =
        Some (Element (js ''div'') [(js ''id'', js ''bh-1''), (js ''class'', js ''btn'')]
          [Text (js ''hi''), Element (js ''i'') [] []]) \<and>
      doc_size d = Suc (doc_size page)) \<and>
   (\<exists>d. prepend example_host page (js ''bh-1'') (js ''<i></i><b></b>'') = Inr d \<and>
      node_at [0, 0, 0] d =
        Some (Element (js ''div'') [(js ''id'', js ''bh-1''), (js ''class'', js ''btn'')]
          [Element (js ''i'') [] [], Text (js ''hi'')]) \<and>
      doc_size d = Suc (doc_size page)) \<and>
   (\<exists>d. before example_host page (js ''bh-1'') (js ''<i></i><b></b>'') = Inr d \<and>
      siblings [0, 0, 0] d =
        Some [Element (js ''i'') [] [],
              Element (js ''div'') [(js ''id'', js ''bh-1''), (js ''class'', js ''btn'')]
                [Text (js ''hi'')],
              Element (js ''p'') [(js ''id'', js ''bh-2'')] [Text [0xE9]]] \<and>
      doc_size d = Suc (doc_size page)) \<and>
   (\<exists>d. after example_host page (js ''bh-1'') (js ''<i></i><b></b>'') = Inr d \<and>
      siblings [0, 0, 0] d =
        Some [Element (js ''div'') [(js ''id'', js ''bh-1''), (js ''class'', js ''btn'')]
                [Text (js ''hi'')],
              Element (js ''i'') [] [],
              Element (js ''p'') [(js ''id'', js ''bh-2'')] [Text [0xE9]]] \<and>
      doc_size d = Suc (doc_size page)) \<and>
   get_element_by_id root_page (js ''bh-0'') = Some [0] \<and>
   parent_tag [0] root_page = None \<and>
   \<not> insertable_in_document (Element (js ''i'') [] []) \<and>
   before example_host root_page (js ''bh-0'') (js ''<i></i><b></b>'') =
     Inl HierarchyRequestError \<and>
   after example_host root_page (js ''bh-0'') (js ''<i></i><b></b>'') =
     Inl HierarchyRequestError"
proof -
  note a = insertion_takes_first_parsed_node [OF page_ids(1) example_parse]
  note b = insertion_takes_first_parsed_node [OF root_page_facts(1) example_parse]
  from a have "(\<exists>d. append_js example_host page (js ''bh-1'') (js ''<i></i><b></b>'') = Inr d \<and>
      node_at [0, 0, 0] d =
        Some (Element (js ''div'') [(js ''id'', js ''bh-1''), (js ''class'', js ''btn'')]
          [Text (js ''hi''), Element (js ''i'') [] []]) \<and>
      doc_size d = Suc (doc_size page)) \<and>
   (\<exists>d. prepend example_host page (js ''bh-1'') (js ''<i></i><b></b>'') = Inr d \<and>
      node_at [0, 0, 0] d =
        Some (Element (js ''div'') [(js ''id'', js ''bh-1''), (js ''class'', js ''btn'')]
          [Element (js ''i'') [] [], Text (js ''hi'')]) \<and>
      doc_size d = Suc (doc_size page)) \<and>
   (\<exists>d. before example_host page (js ''bh-1'') (js ''<i></i><b></b>'') = Inr d \<and>
      siblings [0, 0, 0] d =
        Some [Element (js ''i'') [] [],
              Element (js ''div'') [(js ''id'', js ''bh-1''), (js ''class'', js ''btn'')]
                [Text (js ''hi'')],
              Element (js ''p'') [(js ''id'', js ''bh-2'')] [Text [0xE9]]] \<and>
      doc_size d = Suc (doc_size page)) \<and>
   (\<exists>d. after example_host page (js ''bh-1'') (js ''<i></i><b></b>'') = Inr d \<and>
      siblings [0, 0, 0] d =
        Some [Element (js ''div'') [(js ''id'', js ''bh-1''), (js ''class'', js ''btn'')]
                [Text (js ''hi'')],
              Element (js ''i'') [] [],
              Element (js ''p'') [(js ''id'', js ''bh-2'')] [Text [0xE9]]] \<and>
      doc_size d = Suc (doc_size page))"
    by (simp add: page_div)
  moreover from b have "before example_host root_page (js ''bh-0'') (js ''<i></i><b></b>'') =
      Inl HierarchyRequestError \<and>
    after example_host root_page (js ''bh-0'') (js ''<i></i><b></b>'') =
      Inl HierarchyRequestError"
    using root_page_facts(2) by (elim exE conjE) simp
  ultimately show ?thesis
    by (simp add: page_ids(1) example_parse page_div(3) root_page_facts)
qed

text \<open>
  Claim C8 as stated (for every live target element the four primitives insert the first
  node) fails for \<open>before\<close> and \<open>after\<close> at the root element: its parent is the document
  node, which takes no second element, and the calls raise \<open>HierarchyRequestError\<close>.
\<close>

theorem before_and_after_raise_at_root_element:
  "get_element_by_id root_page (js ''bh-0'') = Some [0] \<and>
   parse_html example_host (js ''div'') (js ''<i></i><b></b>'') =
     [Element (js ''i'') [] [], Element (js ''b'') [] []] \<and>
   before example_host root_page (js ''bh-0'') (js ''<i></i><b></b>'') =
     Inl HierarchyRequestError \<and>
   after example_host root_page (js ''bh-0'') (js ''<i></i><b></b>'') =
     Inl HierarchyRequestError"
  by (simp add: root_page_facts example_parse before_def after_def first_child_def
      insert_beside_def)

end
